theory Spec2Isabelle
  imports
    Main
    "HOL-Library.Word"
    "HOL-Library.AList"
    "HOL-Library.Char_ord"
    "HOL-Library.List_Lexorder"
begin

unbundle bit_operations_syntax

section \<open>Go values\<close>

text \<open>
  The dynamic values (\<^verbatim>\<open>interface{}\<close>) that travel through the file cache. Machine
  integers are words of their width (\<^verbatim>\<open>int\<close> and \<^verbatim>\<open>uint\<close> are 64 bits wide);
  floats are carried as their bit patterns and never computed with. Go strings and
  byte slices are byte sequences, here \<^typ>\<open>string\<close>. A Go map is an association
  list read through \<^const>\<open>map_of\<close>. \<open>VJsonBytes v\<close> is the byte slice that
  \<^verbatim>\<open>json.Marshal\<close> produces for a value which \<^verbatim>\<open>json.Unmarshal\<close> decodes as \<open>v\<close>;
  \<open>VBytes\<close> is any other byte slice.
\<close>

datatype gval =
    VNil
  | VInt "64 word"
  | VInt8 "8 word"
  | VInt16 "16 word"
  | VInt32 "32 word"
  | VInt64 "64 word"
  | VUint "64 word"
  | VUint8 "8 word"
  | VUint16 "16 word"
  | VUint32 "32 word"
  | VUint64 "64 word"
  | VFloat32 "32 word"
  | VFloat64 "64 word"
  | VString string
  | VBool bool
  | VBytes string
  | VJsonBytes gval
  | VSlice "gval list"
  | VMap "(string \<times> gval) list"
  | VStrMap "(string \<times> string) list"

text \<open>
  Go errors: the operating system's, the gob decoder's, the JSON encoder's, and
  \<^verbatim>\<open>errors.New\<close>.
\<close>

datatype error =
    ENOENT
  | EISDIR
  | ENOTDIR
  | ENOTEMPTY
  | EINVAL
  | GobError
  | JsonUnsupportedValue
  | ErrorNew string
  | Errorf string error

text \<open>A call either returns or panics.\<close>

datatype 'a outcome = Return 'a | Panic

text \<open>\<^verbatim>\<open>[16]byte\<close>, the result type of \<^verbatim>\<open>md5.Sum\<close>.\<close>

typedef digest = "{bs :: 8 word list. length bs = 16}"
  by (rule exI [of _ "replicate 16 0"]) simp

setup_lifting type_definition_digest

text \<open>
  Functions of Go's standard library and of \<^verbatim>\<open>go-utils\<close> that the cache calls and
  that are not part of this repository. They are parameters of the model:
  \<^item> \<open>md5_Sum\<close> is \<^verbatim>\<open>md5.Sum\<close>;
  \<^item> \<open>fmt_float\<close> is the text that \<^verbatim>\<open>fmt\<close> prints for a float under \<^verbatim>\<open>%v\<close>, and
    \<open>FormatFloat\<close> the text of \<^verbatim>\<open>strconv.FormatFloat(v, 'f', -1, bits)\<close>;
  \<^item> \<open>json_number\<close> is the \<^verbatim>\<open>float64\<close> read back from the JSON number that
    \<^verbatim>\<open>json.Marshal\<close> writes for a number, \<open>json_text\<close> the bytes of the JSON text of a
    value, \<open>base64\<close> the encoding in which \<^verbatim>\<open>json.Marshal\<close> writes a byte slice, and
    \<open>json_parse\<close> is \<^verbatim>\<open>json.Unmarshal\<close> on bytes that \<^verbatim>\<open>json.Marshal\<close> did not write;
  \<^item> \<open>GetGromTag\<close> is \<^verbatim>\<open>stringx.GetGromTag\<close>.
\<close>

record extern =
  md5_Sum :: "string \<Rightarrow> digest"
  fmt_float :: "gval \<Rightarrow> string"
  FormatFloat :: "gval \<Rightarrow> string"
  json_number :: "gval \<Rightarrow> 64 word"
  json_text :: "gval \<Rightarrow> string"
  base64 :: "string \<Rightarrow> string"
  json_parse :: "string \<Rightarrow> gval option"
  GetGromTag :: "string \<Rightarrow> string"

section \<open>Entry envelope\<close>

record Item =
  Val :: gval
  Created :: "64 word"
  Expire :: "64 word"

text \<open>\<^verbatim>\<open>time.Now().Unix()\<close> is the argument \<open>now\<close>.\<close>

definition hasExpired :: "64 word \<Rightarrow> Item \<Rightarrow> bool" where
  "hasExpired now item \<longleftrightarrow> 0 <s Expire item \<and> Expire item \<le>s now - Created item"

section \<open>Counter helpers\<close>

fun Incr :: "gval \<Rightarrow> gval \<times> error option" where
  "Incr (VInt n) = (VInt (n + 1), None)"
| "Incr (VInt32 n) = (VInt32 (n + 1), None)"
| "Incr (VInt64 n) = (VInt64 (n + 1), None)"
| "Incr (VUint n) = (VUint (n + 1), None)"
| "Incr (VUint32 n) = (VUint32 (n + 1), None)"
| "Incr (VUint64 n) = (VUint64 (n + 1), None)"
| "Incr v = (v, Some (ErrorNew ''item value is not int-type''))"

fun Decr :: "gval \<Rightarrow> gval \<times> error option" where
  "Decr (VInt n) = (VInt (n - 1), None)"
| "Decr (VInt32 n) = (VInt32 (n - 1), None)"
| "Decr (VInt64 n) = (VInt64 (n - 1), None)"
| "Decr (VUint n) =
     (if 0 < n then (VUint (n - 1), None)
      else (VUint n, Some (ErrorNew ''item value is less than 0'')))"
| "Decr (VUint32 n) =
     (if 0 < n then (VUint32 (n - 1), None)
      else (VUint32 n, Some (ErrorNew ''item value is less than 0'')))"
| "Decr (VUint64 n) =
     (if 0 < n then (VUint64 (n - 1), None)
      else (VUint64 n, Some (ErrorNew ''item value is less than 0'')))"
| "Decr v = (v, Some (ErrorNew ''item value is not int-type''))"

fun isNotNumber :: "gval \<Rightarrow> bool" where
  "isNotNumber (VInt _) = False"
| "isNotNumber (VInt8 _) = False"
| "isNotNumber (VInt16 _) = False"
| "isNotNumber (VInt32 _) = False"
| "isNotNumber (VInt64 _) = False"
| "isNotNumber (VUint _) = False"
| "isNotNumber (VUint8 _) = False"
| "isNotNumber (VUint16 _) = False"
| "isNotNumber (VUint32 _) = False"
| "isNotNumber (VUint64 _) = False"
| "isNotNumber (VFloat32 _) = False"
| "isNotNumber (VFloat64 _) = False"
| "isNotNumber (VString _) = False"
| "isNotNumber (VBool _) = False"
| "isNotNumber _ = True"

section \<open>Text\<close>

text \<open>Base-10 text of an integer, as \<^verbatim>\<open>strconv.FormatInt\<close> and \<^verbatim>\<open>fmt\<close> print it.\<close>

fun show_nat :: "nat \<Rightarrow> string" where
  "show_nat n =
     (if n < 10 then [''0123456789'' ! n]
      else show_nat (n div 10) @ [''0123456789'' ! (n mod 10)])"

declare show_nat.simps [simp del]

definition show_int :: "int \<Rightarrow> string" where
  "show_int i = (if i < 0 then CHR ''-'' # show_nat (nat (- i)) else show_nat (nat i))"

fun intercalate :: "'a list \<Rightarrow> 'a list list \<Rightarrow> 'a list" where
  "intercalate sep [] = []"
| "intercalate sep [x] = x"
| "intercalate sep (x # y # ys) = x @ sep @ intercalate sep (y # ys)"

text \<open>
  A Go map holds one value per key: the entries of an association list that
  \<^const>\<open>map_of\<close> sees, in the order of their keys (the order in which \<^verbatim>\<open>fmt\<close> and
  \<^verbatim>\<open>encoding/json\<close> visit a map).
\<close>

definition entries :: "(string \<times> 'v) list \<Rightarrow> (string \<times> 'v) list" where
  "entries kvs = sort_key fst (AList.clearjunk kvs)"

text \<open>\<^verbatim>\<open>fmt.Sprintf("%v", v)\<close>.\<close>

fun Sprint :: "extern \<Rightarrow> gval \<Rightarrow> string" where
  "Sprint X VNil = ''<nil>''"
| "Sprint X (VInt n) = show_int (sint n)"
| "Sprint X (VInt8 n) = show_int (sint n)"
| "Sprint X (VInt16 n) = show_int (sint n)"
| "Sprint X (VInt32 n) = show_int (sint n)"
| "Sprint X (VInt64 n) = show_int (sint n)"
| "Sprint X (VUint n) = show_nat (unat n)"
| "Sprint X (VUint8 n) = show_nat (unat n)"
| "Sprint X (VUint16 n) = show_nat (unat n)"
| "Sprint X (VUint32 n) = show_nat (unat n)"
| "Sprint X (VUint64 n) = show_nat (unat n)"
| "Sprint X (VFloat32 f) = fmt_float X (VFloat32 f)"
| "Sprint X (VFloat64 f) = fmt_float X (VFloat64 f)"
| "Sprint X (VString s) = s"
| "Sprint X (VBool b) = (if b then ''true'' else ''false'')"
| "Sprint X (VBytes s) = ''['' @ intercalate '' '' (map (\<lambda>c. show_nat (of_char c)) s) @ '']''"
| "Sprint X (VJsonBytes j) =
     ''['' @ intercalate '' '' (map (\<lambda>c. show_nat (of_char c)) (json_text X j)) @ '']''"
| "Sprint X (VSlice vs) = ''['' @ intercalate '' '' (map (Sprint X) vs) @ '']''"
| "Sprint X (VMap kvs) =
     ''map['' @ intercalate '' ''
        (map (\<lambda>(k, s). k @ '':'' @ s) (entries (map (\<lambda>(k, v). (k, Sprint X v)) kvs))) @ '']''"
| "Sprint X (VStrMap kvs) =
     ''map['' @ intercalate '' '' (map (\<lambda>(k, s). k @ '':'' @ s) (entries kvs)) @ '']''"

text \<open>\<^verbatim>\<open>ToStr(value)\<close>; no caller passes the optional base or precision.\<close>

fun ToStr :: "extern \<Rightarrow> gval \<Rightarrow> string" where
  "ToStr X (VBool b) = (if b then ''true'' else ''false'')"
| "ToStr X (VFloat32 f) = FormatFloat X (VFloat32 f)"
| "ToStr X (VFloat64 f) = FormatFloat X (VFloat64 f)"
| "ToStr X (VInt n) = show_int (sint n)"
| "ToStr X (VInt8 n) = show_int (sint n)"
| "ToStr X (VInt16 n) = show_int (sint n)"
| "ToStr X (VInt32 n) = show_int (sint n)"
| "ToStr X (VInt64 n) = show_int (sint n)"
| "ToStr X (VUint n) = show_nat (unat n)"
| "ToStr X (VUint8 n) = show_nat (unat n)"
| "ToStr X (VUint16 n) = show_nat (unat n)"
| "ToStr X (VUint32 n) = show_nat (unat n)"
| "ToStr X (VUint64 n) = show_nat (unat n)"
| "ToStr X (VString s) = s"
| "ToStr X (VBytes s) = s"
| "ToStr X (VJsonBytes j) = json_text X j"
| "ToStr X v = Sprint X v"

section \<open>JSON\<close>

text \<open>
  \<^verbatim>\<open>encoding/json\<close> writes a string with every byte that does not start a well-formed
  UTF-8 sequence replaced by U+FFFD; every other byte comes back from decoding as it was.
  \<open>utf8_len s\<close> is the width of the well-formed sequence at the head of \<open>s\<close>, or 0.
\<close>

definition cont :: "char \<Rightarrow> nat \<Rightarrow> nat \<Rightarrow> bool" where
  "cont c lo hi \<longleftrightarrow> lo \<le> (of_char c :: nat) \<and> (of_char c :: nat) \<le> hi"

fun utf8_len :: "string \<Rightarrow> nat" where
  "utf8_len [] = 0"
| "utf8_len (c # cs) =
     (let b = (of_char c :: nat) in
      if b < 0x80 then 1
      else if 0xC2 \<le> b \<and> b \<le> 0xDF then
        (case cs of c1 # _ \<Rightarrow> if cont c1 0x80 0xBF then 2 else 0 | _ \<Rightarrow> 0)
      else if 0xE0 \<le> b \<and> b \<le> 0xEF then
        (case cs of c1 # c2 # _ \<Rightarrow>
           if cont c1 (if b = 0xE0 then 0xA0 else 0x80) (if b = 0xED then 0x9F else 0xBF)
              \<and> cont c2 0x80 0xBF then 3 else 0
         | _ \<Rightarrow> 0)
      else if 0xF0 \<le> b \<and> b \<le> 0xF4 then
        (case cs of c1 # c2 # c3 # _ \<Rightarrow>
           if cont c1 (if b = 0xF0 then 0x90 else 0x80) (if b = 0xF4 then 0x8F else 0xBF)
              \<and> cont c2 0x80 0xBF \<and> cont c3 0x80 0xBF then 4 else 0
         | _ \<Rightarrow> 0)
      else 0)"

function json_string :: "string \<Rightarrow> string" where
  "json_string [] = []"
| "json_string (c # cs) =
     (if utf8_len (c # cs) = 0 then [CHR 0xEF, CHR 0xBF, CHR 0xBD] @ json_string cs
      else c # take (utf8_len (c # cs) - 1) cs @ json_string (drop (utf8_len (c # cs) - 1) cs))"
  by pat_completeness auto
termination
  by (relation "measure length") auto

text \<open>
  A JSON object read back into a map: the members are written in the order of their
  keys and a later member replaces an earlier one of the same name.
\<close>

definition json_object :: "(string \<times> gval) list \<Rightarrow> (string \<times> gval) list" where
  "json_object kvs = rev (map (\<lambda>(k, v). (json_string k, v)) (entries kvs))"

text \<open>
  \<open>json_value X v\<close> is what \<^verbatim>\<open>json.Unmarshal\<close> stores into an empty interface from the
  bytes that \<^verbatim>\<open>json.Marshal(v)\<close> wrote: nil, bool, float64, string, slice or map.
\<close>

fun json_value :: "extern \<Rightarrow> gval \<Rightarrow> gval" where
  "json_value X VNil = VNil"
| "json_value X (VBool b) = VBool b"
| "json_value X (VString s) = VString (json_string s)"
| "json_value X (VBytes s) = VString (base64 X s)"
| "json_value X (VJsonBytes j) = VString (base64 X (json_text X j))"
| "json_value X (VSlice vs) = VSlice (map (json_value X) vs)"
| "json_value X (VMap kvs) = VMap (json_object (map (\<lambda>(k, v). (k, json_value X v)) kvs))"
| "json_value X (VStrMap kvs) =
     VMap (json_object (map (\<lambda>(k, s). (k, VString (json_string s))) kvs))"
| "json_value X v = VFloat64 (json_number X v)"

text \<open>
  The encoder refuses a float that is not finite (all exponent bits set), wherever it
  stands in the value, and then returns no bytes.
\<close>

fun json_unsupported :: "gval \<Rightarrow> bool" where
  "json_unsupported (VFloat32 f) = (drop_bit 23 f AND 0xFF = 0xFF)"
| "json_unsupported (VFloat64 f) = (drop_bit 52 f AND 0x7FF = 0x7FF)"
| "json_unsupported (VSlice vs) = list_ex json_unsupported vs"
| "json_unsupported (VMap kvs) =
     list_ex (\<lambda>(k, v). map_of kvs k = Some v \<and> json_unsupported v) kvs"
| "json_unsupported v = False"

definition json_Marshal :: "extern \<Rightarrow> gval \<Rightarrow> gval \<times> error option" where
  "json_Marshal X v =
     (if json_unsupported v then (VBytes [], Some JsonUnsupportedValue)
      else (VJsonBytes (json_value X v), None))"

fun json_Unmarshal :: "extern \<Rightarrow> gval \<Rightarrow> gval option" where
  "json_Unmarshal X (VJsonBytes j) = Some j"
| "json_Unmarshal X (VBytes s) = json_parse X s"
| "json_Unmarshal X v = None"

section \<open>Paths\<close>

text \<open>\<^verbatim>\<open>strings.Split(s, sep)\<close> for a one-byte separator.\<close>

fun split_on :: "char \<Rightarrow> string \<Rightarrow> string list" where
  "split_on sep [] = [[]]"
| "split_on sep (c # cs) =
     (if c = sep then [] # split_on sep cs
      else (case split_on sep cs of w # ws \<Rightarrow> (c # w) # ws | [] \<Rightarrow> [[c]]))"

text \<open>
  The lexical processing of \<^verbatim>\<open>filepath.Clean\<close>: the elements kept so far and the
  elements still to read. Empty elements and \<^verbatim>\<open>.\<close> are dropped, \<^verbatim>\<open>..\<close> removes the
  element before it, is dropped at the top of a rooted path and kept at the start of
  a relative one.
\<close>

fun norm_segs :: "bool \<Rightarrow> string list \<Rightarrow> string list \<Rightarrow> string list" where
  "norm_segs rooted st [] = st"
| "norm_segs rooted st (s # ss) =
     (if s = [] \<or> s = ''.'' then norm_segs rooted st ss
      else if s = ''..'' then
        (if st \<noteq> [] \<and> last st \<noteq> ''..'' then norm_segs rooted (butlast st) ss
         else if rooted then norm_segs rooted st ss
         else norm_segs rooted (st @ [''..'']) ss)
      else norm_segs rooted (st @ [s]) ss)"

definition Clean :: "string \<Rightarrow> string" where
  "Clean p =
     (let rooted = (p \<noteq> [] \<and> hd p = CHR ''/'');
          body = intercalate ''/'' (norm_segs rooted [] (split_on CHR ''/'' p))
      in if rooted then CHR ''/'' # body else if body = [] then ''.'' else body)"

text \<open>\<^verbatim>\<open>filepath.Join\<close>: the non-empty elements, joined by a slash and cleaned.\<close>

definition Join :: "string list \<Rightarrow> string" where
  "Join elems =
     (let ne = filter (\<lambda>e. e \<noteq> []) elems
      in if ne = [] then [] else Clean (intercalate ''/'' ne))"

text \<open>\<^verbatim>\<open>hex.EncodeToString\<close>.\<close>

definition hextable :: string where
  "hextable = ''0123456789abcdef''"

definition hex_EncodeToString :: "8 word list \<Rightarrow> string" where
  "hex_EncodeToString bs =
     concat (map (\<lambda>b. [hextable ! unat (drop_bit 4 b), hextable ! unat (b AND 15)]) bs)"

text \<open>\<^verbatim>\<open>filepath.Dir\<close>: everything up to the last slash, cleaned.\<close>

definition filepath_Dir :: "string \<Rightarrow> string" where
  "filepath_Dir p = Clean (rev (dropWhile (\<lambda>c. c \<noteq> CHR ''/'') (rev p)))"

section \<open>The file system\<close>

text \<open>
  A file holds the gob encoding of an item or some other bytes. The file system maps
  the absolute paths that exist, as lists of names, to a directory or a file; the
  top directory \<open>[]\<close> always exists. The system resolves a path name lexically
  (there are no symbolic links) and starts at the top directory. Reads, writes and
  removals fail only for the reasons written out here; a name that runs through a
  regular file is answered like a missing one, with \<open>ENOENT\<close>, where the operating
  system says \<open>ENOTDIR\<close>.
\<close>

datatype fdata = Gob Item | Junk string

datatype node = Dir | File fdata

type_synonym path = "string list"

type_synonym fs = "(path \<times> node) list"

definition resolve :: "string \<Rightarrow> path" where
  "resolve name = norm_segs True [] (split_on CHR ''/'' name)"

definition is_dir :: "fs \<Rightarrow> path \<Rightarrow> bool" where
  "is_dir fs p \<longleftrightarrow> p = [] \<or> map_of fs p = Some Dir"

definition path_under :: "path \<Rightarrow> path \<Rightarrow> bool" where
  "path_under p q \<longleftrightarrow> take (length p) q = p"

definition os_ReadFile :: "fs \<Rightarrow> string \<Rightarrow> error + fdata" where
  "os_ReadFile fs name =
     (case map_of fs (resolve name) of
        Some (File d) \<Rightarrow> Inr d
      | Some Dir \<Rightarrow> Inl EISDIR
      | None \<Rightarrow> if resolve name = [] then Inl EISDIR else Inl ENOENT)"

fun mkdir_all :: "fs \<Rightarrow> path \<Rightarrow> path \<Rightarrow> fs \<times> error option" where
  "mkdir_all fs p [] = (fs, None)"
| "mkdir_all fs p (s # ss) =
     (case map_of fs (p @ [s]) of
        Some (File d) \<Rightarrow> (fs, Some ENOTDIR)
      | Some Dir \<Rightarrow> mkdir_all fs (p @ [s]) ss
      | None \<Rightarrow> mkdir_all (AList.update (p @ [s]) Dir fs) (p @ [s]) ss)"

definition os_MkdirAll :: "fs \<Rightarrow> string \<Rightarrow> fs \<times> error option" where
  "os_MkdirAll fs name = mkdir_all fs [] (resolve name)"

definition write_file :: "fs \<Rightarrow> path \<Rightarrow> fdata \<Rightarrow> fs \<times> error option" where
  "write_file fs p d =
     (if is_dir fs p then (fs, Some EISDIR)
      else if is_dir fs (butlast p) then (AList.update p (File d) fs, None)
      else if map_of fs (butlast p) = None then (fs, Some ENOENT)
      else (fs, Some ENOTDIR))"

definition os_WriteFile :: "fs \<Rightarrow> string \<Rightarrow> fdata \<Rightarrow> fs \<times> error option" where
  "os_WriteFile fs name d = write_file fs (resolve name) d"

definition remove_path :: "fs \<Rightarrow> path \<Rightarrow> fs \<times> error option" where
  "remove_path fs p =
     (case map_of fs p of
        None \<Rightarrow> (fs, Some (if p = [] then ENOTEMPTY else ENOENT))
      | Some (File d) \<Rightarrow> (AList.delete p fs, None)
      | Some Dir \<Rightarrow>
          if list_ex (\<lambda>(q, n). path_under p q \<and> q \<noteq> p) fs then (fs, Some ENOTEMPTY)
          else (AList.delete p fs, None))"

definition os_Remove :: "fs \<Rightarrow> string \<Rightarrow> fs \<times> error option" where
  "os_Remove fs name = remove_path fs (resolve name)"

text \<open>
  \<^verbatim>\<open>os.RemoveAll\<close> does nothing for the empty name and refuses a name that ends in
  the element \<^verbatim>\<open>.\<close>; otherwise it removes the path and everything below it.
\<close>

definition endsWithDot :: "string \<Rightarrow> bool" where
  "endsWithDot name \<longleftrightarrow>
     name = ''.'' \<or>
     (2 \<le> length name \<and> name ! (length name - 1) = CHR ''.''
        \<and> name ! (length name - 2) = CHR ''/'')"

definition os_RemoveAll :: "fs \<Rightarrow> string \<Rightarrow> fs \<times> error option" where
  "os_RemoveAll fs name =
     (if name = [] then (fs, None)
      else if endsWithDot name then (fs, Some EINVAL)
      else (filter (\<lambda>(q, n). \<not> path_under (resolve name) q) fs, None))"

definition IsExist :: "fs \<Rightarrow> string \<Rightarrow> bool" where
  "IsExist fs name \<longleftrightarrow> resolve name = [] \<or> map_of fs (resolve name) \<noteq> None"

section \<open>Gob\<close>

text \<open>
  The encoder refuses an interface value whose type is not registered: of the values
  here, those are slices of interfaces and maps. Decoding gives back the item that was
  encoded, and fails on any other bytes.
\<close>

fun gob_registered :: "gval \<Rightarrow> bool" where
  "gob_registered (VSlice vs) = False"
| "gob_registered (VMap kvs) = False"
| "gob_registered (VStrMap kvs) = False"
| "gob_registered v = True"

definition EncodeGob :: "Item \<Rightarrow> fdata \<times> error option" where
  "EncodeGob item =
     (if gob_registered (Val item) then (Gob item, None) else (Junk [], Some GobError))"

fun DecodeGob :: "fdata \<Rightarrow> error + Item" where
  "DecodeGob (Gob item) = Inr item"
| "DecodeGob (Junk bs) = Inl GobError"

section \<open>The file cache\<close>

record FileCache =
  rootPath :: string
  interval :: int

definition FileCache_filepath :: "extern \<Rightarrow> FileCache \<Rightarrow> string \<Rightarrow> string" where
  "FileCache_filepath X c key =
     (let keys = split_on CHR ''_'' key;
          path = (if 2 \<le> length keys then ''/'' @ keys ! 0 else []);
          m = md5_Sum X key;
          hash = hex_EncodeToString (Rep_digest m)
      in Join [rootPath c @ path, [hash ! 0], [hash ! 1], hash])"

text \<open>
  Every operation takes the clock reading \<open>now\<close> (\<^verbatim>\<open>time.Now().Unix()\<close>, which does not
  advance while one operation runs) and the file system, and returns the file system
  it leaves behind together with its Go results.
\<close>

definition FileCache_Set ::
  "extern \<Rightarrow> FileCache \<Rightarrow> 64 word \<Rightarrow> fs \<Rightarrow> string \<Rightarrow> gval \<Rightarrow> 64 word \<Rightarrow> fs \<times> error option" where
  "FileCache_Set X c now fs key val expire =
     (let filename = FileCache_filepath X c key;
          val' = (if isNotNumber val then fst (json_Marshal X val) else val);
          item = \<lparr>Val = val', Created = now, Expire = expire\<rparr>
      in case EncodeGob item of
           (data, Some err) \<Rightarrow> (fs, Some err)
         | (data, None) \<Rightarrow>
             os_WriteFile (fst (os_MkdirAll fs (filepath_Dir filename))) filename data)"

definition FileCache_read :: "extern \<Rightarrow> FileCache \<Rightarrow> fs \<Rightarrow> string \<Rightarrow> error + Item" where
  "FileCache_read X c fs key =
     (case os_ReadFile fs (FileCache_filepath X c key) of
        Inl err \<Rightarrow> Inl err
      | Inr data \<Rightarrow> DecodeGob data)"

fun is_bytes :: "gval \<Rightarrow> bool" where
  "is_bytes (VBytes s) = True"
| "is_bytes (VJsonBytes j) = True"
| "is_bytes v = False"

text \<open>
  In the expired branch the source returns \<^verbatim>\<open>nil, err\<close> where \<^verbatim>\<open>err\<close> is the error of
  the read, which is nil there.
\<close>

definition FileCache_Get ::
  "extern \<Rightarrow> FileCache \<Rightarrow> 64 word \<Rightarrow> fs \<Rightarrow> string \<Rightarrow> fs \<times> (gval \<times> error option) outcome" where
  "FileCache_Get X c now fs key =
     (case FileCache_read X c fs key of
        Inl err \<Rightarrow> (fs, Return (VNil, Some err))
      | Inr item \<Rightarrow>
          if hasExpired now item then
            (fst (os_Remove fs (FileCache_filepath X c key)), Return (VNil, None))
          else if isNotNumber (Val item) then
            (if is_bytes (Val item) then
               (fs, Return (case json_Unmarshal X (Val item) of
                              Some v \<Rightarrow> v | None \<Rightarrow> Val item, None))
             else (fs, Panic))
          else (fs, Return (VString (Sprint X (Val item)), None)))"

definition FileCache_Del :: "extern \<Rightarrow> FileCache \<Rightarrow> fs \<Rightarrow> string \<Rightarrow> fs \<times> error option" where
  "FileCache_Del X c fs key = os_Remove fs (FileCache_filepath X c key)"

definition FileCache_Incr ::
  "extern \<Rightarrow> FileCache \<Rightarrow> 64 word \<Rightarrow> fs \<Rightarrow> string \<Rightarrow> fs \<times> error option" where
  "FileCache_Incr X c now fs key =
     (case FileCache_read X c fs key of
        Inl err \<Rightarrow> (fs, Some err)
      | Inr item \<Rightarrow>
          (case Incr (Val item) of
             (v, Some err) \<Rightarrow> (fs, Some err)
           | (v, None) \<Rightarrow> FileCache_Set X c now fs key v (Expire item)))"

definition FileCache_Decr ::
  "extern \<Rightarrow> FileCache \<Rightarrow> 64 word \<Rightarrow> fs \<Rightarrow> string \<Rightarrow> fs \<times> error option" where
  "FileCache_Decr X c now fs key =
     (case FileCache_read X c fs key of
        Inl err \<Rightarrow> (fs, Some err)
      | Inr item \<Rightarrow>
          (case Decr (Val item) of
             (v, Some err) \<Rightarrow> (fs, Some err)
           | (v, None) \<Rightarrow> FileCache_Set X c now fs key v (Expire item)))"

definition FileCache_Exists :: "extern \<Rightarrow> FileCache \<Rightarrow> fs \<Rightarrow> string \<Rightarrow> bool" where
  "FileCache_Exists X c fs key = IsExist fs (FileCache_filepath X c key)"

definition FileCache_Flush :: "FileCache \<Rightarrow> fs \<Rightarrow> fs \<times> error option" where
  "FileCache_Flush c fs = os_RemoveAll fs (rootPath c)"

text \<open>
  The root that \<^verbatim>\<open>StartAndGC\<close> computes from the working directory and the configured
  directory. \<^verbatim>\<open>strings.Replace\<close> is called with a count of 0 and so gives the configured
  text back as it is.
\<close>

definition filepath_IsAbs :: "string \<Rightarrow> bool" where
  "filepath_IsAbs p \<longleftrightarrow> p \<noteq> [] \<and> hd p = CHR ''/''"

definition StartAndGC_rootPath :: "string \<Rightarrow> string \<Rightarrow> string" where
  "StartAndGC_rootPath exePath config =
     (let rootPath = exePath @ ''/'' @ config
      in if \<not> filepath_IsAbs rootPath then Join [''/'', rootPath] else rootPath)"

subsection \<open>Hash emulation\<close>

text \<open>
  A \<^verbatim>\<open>map[string]string\<close> result is \<open>None\<close> when it is the nil map. Handing a map
  to \<^verbatim>\<open>Set\<close> wraps it in an interface; the nil map is written as JSON \<^verbatim>\<open>null\<close>, as
  \<open>VNil\<close> is.
\<close>

fun strmap :: "(string \<times> string) list option \<Rightarrow> gval" where
  "strmap None = VNil"
| "strmap (Some d) = VStrMap d"

definition FileCache_HGetAll ::
  "extern \<Rightarrow> FileCache \<Rightarrow> 64 word \<Rightarrow> fs \<Rightarrow> string
   \<Rightarrow> fs \<times> ((string \<times> string) list option \<times> error option) outcome" where
  "FileCache_HGetAll X c now fs key =
     (if \<not> FileCache_Exists X c fs key then (fs, Return (None, Some (ErrorNew ''is empty'')))
      else case FileCache_Get X c now fs key of
             (fs', Panic) \<Rightarrow> (fs', Panic)
           | (fs', Return (newData, Some err)) \<Rightarrow>
               (fs', Return (None, Some (ErrorNew ''Get failed'')))
           | (fs', Return (newData, None)) \<Rightarrow>
               (case newData of
                  VNil \<Rightarrow> (fs', Return (None, None))
                | VMap newVal \<Rightarrow>
                    (fs', Return (Some (map (\<lambda>(i, v). (i, ToStr X v)) newVal), None))
                | _ \<Rightarrow> (fs', Panic)))"

fun StringInArray :: "string \<Rightarrow> string list \<Rightarrow> bool" where
  "StringInArray item [] = False"
| "StringInArray item (eachItem # items) =
     (if eachItem = item then True else StringInArray item items)"

definition FileCache_HMGet ::
  "extern \<Rightarrow> FileCache \<Rightarrow> 64 word \<Rightarrow> fs \<Rightarrow> string \<Rightarrow> string list
   \<Rightarrow> fs \<times> ((string \<times> string) list option \<times> error option) outcome" where
  "FileCache_HMGet X c now fs key flds =
     (if \<not> FileCache_Exists X c fs key then
        (fs, Return (None, Some (ErrorNew ''does not exist'')))
      else case FileCache_HGetAll X c now fs key of
             (fs', Panic) \<Rightarrow> (fs', Panic)
           | (fs', Return (data, Some err)) \<Rightarrow> (fs', Return (None, Some err))
           | (fs', Return (data, None)) \<Rightarrow>
               (fs', Return (Some (filter (\<lambda>(k, v). StringInArray k flds)
                                     (case data of None \<Rightarrow> [] | Some d \<Rightarrow> AList.clearjunk d)),
                             None)))"

definition FileCache_HGet ::
  "extern \<Rightarrow> FileCache \<Rightarrow> 64 word \<Rightarrow> fs \<Rightarrow> string \<Rightarrow> string
   \<Rightarrow> fs \<times> (string \<times> error option) outcome" where
  "FileCache_HGet X c now fs key field =
     (if \<not> FileCache_Exists X c fs key then
        (fs, Return ([], Some (ErrorNew ''does not exist'')))
      else case FileCache_HGetAll X c now fs key of
             (fs', Panic) \<Rightarrow> (fs', Panic)
           | (fs', Return (data, Some err)) \<Rightarrow>
               (fs', Return ([], Some (ErrorNew ''does not exist'')))
           | (fs', Return (data, None)) \<Rightarrow>
               (case (case data of None \<Rightarrow> None | Some d \<Rightarrow> map_of d field) of
                  Some v \<Rightarrow> (fs', Return (v, None))
                | None \<Rightarrow> (fs', Return ([], Some (ErrorNew ''does not exist'')))))"

text \<open>
  \<^verbatim>\<open>data[k] = ToStr(v)\<close> for every entry of the new map; the first assignment to a nil
  map panics.
\<close>

definition assign_all ::
  "extern \<Rightarrow> (string \<times> string) list option \<Rightarrow> (string \<times> gval) list
   \<Rightarrow> (string \<times> string) list option outcome" where
  "assign_all X data newData =
     (case data of
        None \<Rightarrow> if entries newData = [] then Return None else Panic
      | Some d \<Rightarrow>
          Return (Some (fold (\<lambda>(k, v) d'. AList.update k (ToStr X v) d') (entries newData) d)))"

definition FileCache_HSet ::
  "extern \<Rightarrow> FileCache \<Rightarrow> 64 word \<Rightarrow> fs \<Rightarrow> string \<Rightarrow> gval
   \<Rightarrow> fs \<times> (bool \<times> error option) outcome" where
  "FileCache_HSet X c now fs key newData =
     (if \<not> FileCache_Exists X c fs key then (fs, Return (False, None))
      else case FileCache_HGetAll X c now fs key of
             (fs', Panic) \<Rightarrow> (fs', Panic)
           | (fs', Return (data, Some err)) \<Rightarrow> (fs', Return (True, None))
           | (fs', Return (data, None)) \<Rightarrow>
               (case newData of
                  VNil \<Rightarrow>
                    (fst (FileCache_Set X c now fs' key (strmap data) 0), Return (True, None))
                | VMap nd \<Rightarrow>
                    (case assign_all X data nd of
                       Panic \<Rightarrow> (fs', Panic)
                     | Return data' \<Rightarrow>
                         (fst (FileCache_Set X c now fs' key (strmap data') 0),
                          Return (True, None)))
                | VStrMap nd \<Rightarrow> (fs', Panic)
                | _ \<Rightarrow> (fs', Return (False, Some (ErrorNew ''data must be map'')))))"

definition FileCache_HDel ::
  "extern \<Rightarrow> FileCache \<Rightarrow> 64 word \<Rightarrow> fs \<Rightarrow> string \<Rightarrow> string
   \<Rightarrow> fs \<times> error option outcome" where
  "FileCache_HDel X c now fs key field =
     (if \<not> FileCache_Exists X c fs key then (fs, Return None)
      else case FileCache_HGetAll X c now fs key of
             (fs', Panic) \<Rightarrow> (fs', Panic)
           | (fs', Return (data, Some err)) \<Rightarrow> (fs', Return None)
           | (fs', Return (data, None)) \<Rightarrow>
               (case FileCache_Set X c now fs' key
                       (strmap (map_option (AList.delete field) data)) 0 of
                  (fs'', err) \<Rightarrow> (fs'', Return err)))"

subsection \<open>Expire and Clear\<close>



definition FileCache_Clear :: "extern \<Rightarrow> FileCache \<Rightarrow> fs \<Rightarrow> string \<Rightarrow> fs \<times> error option" where
  "FileCache_Clear X c fs key =
     (if CHR ''_'' \<notin> set key then os_RemoveAll fs (rootPath c @ ''/'' @ key)
      else os_Remove fs (FileCache_filepath X c key))"

subsection \<open>Garbage collection\<close>

text \<open>
  \<^verbatim>\<open>filepath.Walk\<close> visits the root and everything below it, every directory before
  its entries and the entries of a directory in the order of their names: the paths
  under the root in lexicographic order. \<open>sweep\<close> is the callback of \<^verbatim>\<open>startGC\<close> run
  over them; the error it stops with is the one \<^verbatim>\<open>startGC\<close> logs. The timer that
  schedules the next sweep is not part of the model.
\<close>

definition walk_paths :: "fs \<Rightarrow> path \<Rightarrow> path list" where
  "walk_paths fs root = sort (remdups (filter (path_under root) (map fst fs)))"

fun sweep :: "64 word \<Rightarrow> fs \<Rightarrow> path list \<Rightarrow> fs \<times> error option" where
  "sweep now fs [] = (fs, None)"
| "sweep now fs (p # ps) =
     (case map_of fs p of
        None \<Rightarrow> (fs, Some (Errorf ''Walk: '' ENOENT))
      | Some Dir \<Rightarrow> sweep now fs ps
      | Some (File data) \<Rightarrow>
          (case DecodeGob data of
             Inl err \<Rightarrow> (fs, Some err)
           | Inr item \<Rightarrow>
               if hasExpired now item then
                 (case remove_path fs p of
                    (fs', None) \<Rightarrow> sweep now fs' ps
                  | (fs', Some err) \<Rightarrow>
                      if err = ENOENT then sweep now fs' ps
                      else (fs', Some (Errorf ''remove: '' err)))
               else sweep now fs ps))"

definition FileCache_startGC :: "FileCache \<Rightarrow> 64 word \<Rightarrow> fs \<Rightarrow> fs \<times> error option" where
  "FileCache_startGC c now fs =
     (if interval c < 1 then (fs, None)
      else if \<not> IsExist fs (rootPath c) then (fs, Some (Errorf ''Walk: '' ENOENT))
      else sweep now fs (walk_paths fs (resolve (rootPath c))))"

section \<open>Record codec\<close>

text \<open>
  A \<^verbatim>\<open>time.Time\<close> as its wall-clock reading in its location, the location's offset
  from UTC in seconds and its abbreviation, and the text of the monotonic clock
  reading that \<^verbatim>\<open>String\<close> appends (empty when there is none).
\<close>

record Time =
  t_year :: int
  t_month :: nat
  t_day :: nat
  t_hour :: nat
  t_minute :: nat
  t_second :: nat
  t_nsec :: nat
  t_offset :: int
  t_zone :: string
  t_mono :: string

definition pad :: "nat \<Rightarrow> nat \<Rightarrow> string" where
  "pad w n = replicate (w - length (show_nat n)) CHR ''0'' @ show_nat n"

definition fmt_year :: "int \<Rightarrow> string" where
  "fmt_year y = (if y < 0 then CHR ''-'' # pad 4 (nat (- y)) else pad 4 (nat y))"

definition fmt_frac :: "nat \<Rightarrow> string" where
  "fmt_frac n =
     (if n = 0 then []
      else CHR ''.'' # rev (dropWhile (\<lambda>c. c = CHR ''0'') (rev (pad 9 n))))"

text \<open>
  The zone offset as \<^verbatim>\<open>-0700\<close>: the offset in whole minutes, rounded towards zero,
  with its sign, as hours and minutes.
\<close>

definition fmt_zone :: "int \<Rightarrow> string" where
  "fmt_zone off =
     (let zone = (if off < 0 then - ((- off) div 60) else off div 60)
      in if zone < 0 then CHR ''-'' # pad 2 (nat (- zone) div 60) @ pad 2 (nat (- zone) mod 60)
         else CHR ''+'' # pad 2 (nat zone div 60) @ pad 2 (nat zone mod 60))"

text \<open>
  \<^verbatim>\<open>Time.String\<close>: the layout \<^verbatim>\<open>2006-01-02 15:04:05.999999999 -0700 MST\<close>, followed by
  the monotonic clock reading.
\<close>

definition Time_String :: "Time \<Rightarrow> string" where
  "Time_String t =
     fmt_year (t_year t) @ ''-'' @ pad 2 (t_month t) @ ''-'' @ pad 2 (t_day t) @ '' ''
     @ pad 2 (t_hour t) @ '':'' @ pad 2 (t_minute t) @ '':'' @ pad 2 (t_second t)
     @ fmt_frac (t_nsec t) @ '' '' @ fmt_zone (t_offset t) @ '' ''
     @ (if t_zone t = [] then fmt_zone (t_offset t) else t_zone t) @ t_mono t"

text \<open>
  What reflection shows of an exported struct field: whether it is embedded, its
  \<^verbatim>\<open>cache\<close> and \<^verbatim>\<open>gorm\<close> tags, and its value by kind. A pointer carries whether it
  points to a struct and the text \<^verbatim>\<open>fmt\<close> prints for it; \<open>RTime\<close> is a struct of type
  \<^verbatim>\<open>time.Time\<close>, which \<^verbatim>\<open>fmt\<close> prints through its \<^verbatim>\<open>String\<close> method, \<open>RStruct\<close> a
  struct of any other type; \<open>RBytes\<close> is a slice of bytes, which \<^verbatim>\<open>conv.ByteToString\<close>
  turns into the string of the same bytes, \<open>RSlice\<close> any other slice; \<open>RScalar\<close> is a
  value of any other kind.
\<close>

datatype rvalue =
    RPtr bool string
  | RTime Time
  | RStruct "field list"
  | RBytes string
  | RSlice
  | RScalar gval
and field = Field bool string string rvalue

fun collect :: "'a outcome list \<Rightarrow> 'a list outcome" where
  "collect [] = Return []"
| "collect (Panic # rs) = Panic"
| "collect (Return x # rs) = (case collect rs of Panic \<Rightarrow> Panic | Return xs \<Rightarrow> Return (x # xs))"

text \<open>
  The result is the tag, the value and the children. The closing
  \<^verbatim>\<open>return tag, nil, nil\<close> of the source names the result parameter, which is empty: the
  tag read from the field is a variable of the inner block.
\<close>

fun setValue ::
  "extern \<Rightarrow> field \<Rightarrow> (string \<times> gval \<times> (string \<times> gval) list option) outcome" where
  "setValue X (Field anonymous cache gorm v) =
     (if anonymous then
        (case v of
           RStruct fs \<Rightarrow>
             (case collect (map (setValue X) fs) of
                Panic \<Rightarrow> Panic
              | Return rs \<Rightarrow>
                  Return ([], VNil,
                    if rs = [] then None else Some (map (\<lambda>(newTag, newVal, ch). (newTag, newVal)) rs)))
         | RTime t \<Rightarrow>
             if GetGromTag X [] = [] then Return ([], VNil, Some (replicate 3 ([], VNil)))
             else Panic
         | _ \<Rightarrow> Panic)
      else
        (let tag = (if cache = [] then GetGromTag X gorm else cache) in
         if tag \<noteq> [] then
           (case v of
              RPtr to_struct text \<Rightarrow>
                if text \<noteq> [] then Return (tag, VString text, None) else Return ([], VNil, None)
            | RTime t \<Rightarrow> Return (tag, VString (Time_String t), None)
            | RStruct fs \<Rightarrow> Return ([], VNil, None)
            | RBytes b \<Rightarrow>
                if b \<noteq> [] then Return (tag, VString b, None) else Return ([], VNil, None)
            | RSlice \<Rightarrow> Panic
            | RScalar x \<Rightarrow> Return (tag, x, None))
         else Return ([], VNil, None)))"

text \<open>The body of the loop of \<^verbatim>\<open>HMSet\<close>: what one field adds to \<^verbatim>\<open>values\<close>.\<close>

fun flatten_step ::
  "(string \<times> gval) list \<Rightarrow> string \<times> gval \<times> (string \<times> gval) list option
   \<Rightarrow> (string \<times> gval) list" where
  "flatten_step values (tag, val, Some child) =
     fold (\<lambda>(t, x) vals. if t = [] \<and> x = VNil then vals else AList.update t x vals) child values"
| "flatten_step values (tag, val, None) =
     (if val = VString [] then values else if val = VNil then values
      else AList.update tag val values)"

fun flatten :: "extern \<Rightarrow> field list \<Rightarrow> (string \<times> gval) list \<Rightarrow> (string \<times> gval) list outcome" where
  "flatten X [] values = Return values"
| "flatten X (f # fs) values =
     (case setValue X f of
        Panic \<Rightarrow> Panic
      | Return r \<Rightarrow> flatten X fs (flatten_step values r))"

definition FileCache_HMSet ::
  "extern \<Rightarrow> FileCache \<Rightarrow> 64 word \<Rightarrow> fs \<Rightarrow> string \<Rightarrow> rvalue option
   \<Rightarrow> fs \<times> error option outcome" where
  "FileCache_HMSet X c now fs key data =
     (if key = [] then (fs, Return (Some (ErrorNew ''parameter is empty'')))
      else case data of
             None \<Rightarrow> (fs, Return (Some (ErrorNew ''parameter is empty'')))
           | Some (RPtr True text) \<Rightarrow> (fs, Return (Some (ErrorNew ''parsing failed'')))
           | Some (RStruct fs') \<Rightarrow>
               (case flatten X fs' [] of
                  Panic \<Rightarrow> (fs, Panic)
                | Return values \<Rightarrow>
                    (case FileCache_Set X c now fs key (VMap values) 0 of
                       (fs'', Some err) \<Rightarrow> (fs'', Return (Some (ErrorNew ''add failed'')))
                     | (fs'', None) \<Rightarrow> (fs'', Return None)))
           | Some (RTime t) \<Rightarrow>
               (if GetGromTag X [] = [] then
                  (case FileCache_Set X c now fs key (VMap []) 0 of
                     (fs'', Some err) \<Rightarrow> (fs'', Return (Some (ErrorNew ''add failed'')))
                   | (fs'', None) \<Rightarrow> (fs'', Return None))
                else (fs, Panic))
           | Some v \<Rightarrow> (fs, Panic))"

section \<open>Notions of the statements\<close>

text \<open>
  A name that \<^const>\<open>Clean\<close> keeps as it is: not empty, not \<^verbatim>\<open>.\<close> or \<^verbatim>\<open>..\<close>, and without
  a slash.
\<close>

definition clean_seg :: "string \<Rightarrow> bool" where
  "clean_seg s \<longleftrightarrow> s \<noteq> [] \<and> s \<noteq> ''.'' \<and> s \<noteq> ''..'' \<and> CHR ''/'' \<notin> set s"

text \<open>The hex digest of a key, and the bucket part that \<^const>\<open>FileCache_filepath\<close> adds to the root.\<close>

definition hash_of :: "extern \<Rightarrow> string \<Rightarrow> string" where
  "hash_of X key = hex_EncodeToString (Rep_digest (md5_Sum X key))"

definition bucket_path :: "string \<Rightarrow> string" where
  "bucket_path key =
     (if CHR ''_'' \<in> set key then ''/'' @ takeWhile (\<lambda>c. c \<noteq> CHR ''_'') key else [])"

text \<open>The place of a key's file in the file system.\<close>

definition file_path :: "extern \<Rightarrow> FileCache \<Rightarrow> string \<Rightarrow> path" where
  "file_path X c key = resolve (FileCache_filepath X c key)"

text \<open>
  Every directory above \<open>p\<close> exists, as it does above any file of a real file system.
\<close>

definition parents_ok :: "fs \<Rightarrow> path \<Rightarrow> bool" where
  "parents_ok fs p \<longleftrightarrow> list_all (\<lambda>k. map_of fs (take k p) = Some Dir) [1..<length p]"

text \<open>What \<^const>\<open>FileCache_Set\<close> puts into the envelope for a value.\<close>

definition stored :: "extern \<Rightarrow> gval \<Rightarrow> gval" where
  "stored X val = (if isNotNumber val then fst (json_Marshal X val) else val)"

text \<open>
  A sample environment for concrete runs: a digest function that maps every key to
  sixteen zero bytes, and a cache rooted at \<^verbatim>\<open>/cache\<close>.
\<close>

lift_definition zero_digest :: digest is "replicate 16 0"
  by simp

definition X0 :: extern where
  "X0 = \<lparr>md5_Sum = (\<lambda>s. zero_digest), fmt_float = (\<lambda>v. []),
     FormatFloat = (\<lambda>v. []), json_number = (\<lambda>v. 0), json_text = (\<lambda>v. []),
     base64 = (\<lambda>s. s), json_parse = (\<lambda>s. None), GetGromTag = (\<lambda>s. [])\<rparr>"

definition c0 :: FileCache where
  "c0 = \<lparr>rootPath = ''/cache'', interval = 60\<rparr>"

text \<open>
  A cache started in the working directory \<^verbatim>\<open>/app\<close> with the configured directory
  \<^verbatim>\<open>./runtime/cache\<close>.
\<close>

definition c1 :: FileCache where
  "c1 = \<lparr>rootPath = StartAndGC_rootPath ''/app'' ''./runtime/cache'', interval = 60\<rparr>"

text \<open>The types that \<^const>\<open>Incr\<close> and \<^const>\<open>Decr\<close> count on, and their two errors.\<close>

fun counter_type :: "gval \<Rightarrow> bool" where
  "counter_type (VInt n) = True"
| "counter_type (VInt32 n) = True"
| "counter_type (VInt64 n) = True"
| "counter_type (VUint n) = True"
| "counter_type (VUint32 n) = True"
| "counter_type (VUint64 n) = True"
| "counter_type v = False"

definition TypeMismatch :: error where
  "TypeMismatch = ErrorNew ''item value is not int-type''"

definition Underflow :: error where
  "Underflow = ErrorNew ''item value is less than 0''"

text \<open>
  The digest text of the sample environment, and the file system that holds one
  entry at \<open>p\<close> and the directories above it.
\<close>

definition h0 :: string where
  "h0 = ''00000000000000000000000000000000''"

definition store_at :: "path \<Rightarrow> Item \<Rightarrow> fs" where
  "store_at p item = map (\<lambda>k. (take k p, Dir)) [1..<length p] @ [(p, File (Gob item))]"



text \<open>
  A sample store: three entries written one after the other into the empty file
  system, under the keys \<^verbatim>\<open>users_42\<close>, \<^verbatim>\<open>orders_1\<close> and \<^verbatim>\<open>k\<close>.
\<close>

definition demo_store :: fs where
  "demo_store =
     fst (FileCache_Set X0 c0 102
       (fst (FileCache_Set X0 c0 101
         (fst (FileCache_Set X0 c0 100 [] ''users_42'' (VMap [(''name'', VString ''Ann'')]) 0))
         ''orders_1'' (VString ''o'') 0))
       ''k'' (VString ''p'') 0)"

text \<open>
  What a sweep finds at a path: a file whose entry is expired, or a file that does
  not decode. \<open>all_decode\<close>: every file that the walk visits decodes.
\<close>

definition expired_file :: "64 word \<Rightarrow> fs \<Rightarrow> path \<Rightarrow> bool" where
  "expired_file now fs q =
     (case map_of fs q of Some (File (Gob item)) \<Rightarrow> hasExpired now item | _ \<Rightarrow> False)"

definition junk_file :: "fs \<Rightarrow> path \<Rightarrow> bool" where
  "junk_file fs q = (case map_of fs q of Some (File (Junk bs)) \<Rightarrow> True | _ \<Rightarrow> False)"

definition all_decode :: "fs \<Rightarrow> path \<Rightarrow> bool" where
  "all_decode fs root = list_all (\<lambda>q. \<not> junk_file fs q) (walk_paths fs root)"

text \<open>
  Two sample stores for a sweep at second 200: one with an entry of TTL 1 and an
  entry of TTL 0, both written at second 100; and one where a file that does not
  decode lies between two expired entries.
\<close>

definition gc_store :: fs where
  "gc_store =
     [([''cache''], Dir),
      ([''cache'', ''a''], Dir), ([''cache'', ''a'', ''0''], Dir), ([''cache'', ''a'', ''0'', ''0''], Dir),
      ([''cache'', ''a'', ''0'', ''0'', h0],
       File (Gob \<lparr>Val = VString ''x'', Created = 100, Expire = 1\<rparr>)),
      ([''cache'', ''b''], Dir), ([''cache'', ''b'', ''0''], Dir), ([''cache'', ''b'', ''0'', ''0''], Dir),
      ([''cache'', ''b'', ''0'', ''0'', h0],
       File (Gob \<lparr>Val = VString ''y'', Created = 100, Expire = 0\<rparr>))]"

definition gc_junk_store :: fs where
  "gc_junk_store =
     [([''cache''], Dir),
      ([''cache'', ''z''], File (Gob \<lparr>Val = VString ''z'', Created = 100, Expire = 1\<rparr>)),
      ([''cache'', ''j''], File (Junk ''???'')),
      ([''cache'', ''a''], File (Gob \<lparr>Val = VString ''x'', Created = 100, Expire = 1\<rparr>))]"







section \<open>Paths: lemmas\<close>

lemma split_on_nonempty: "split_on c s \<noteq> []"
  by (induction s) (auto split: list.splits)

lemma split_on_append: "split_on c (a @ c # b) = split_on c a @ split_on c b"
  by (induction a) (auto split: list.splits simp: split_on_nonempty)

lemma split_on_single: "c \<notin> set s \<Longrightarrow> split_on c s = [s]"
  by (induction s) auto

lemma split_on_free: "w \<in> set (split_on c s) \<Longrightarrow> c \<notin> set w"
  by (induction s arbitrary: w) (auto split: if_splits list.splits)

lemma norm_segs_append:
  "norm_segs r st (xs @ ys) = norm_segs r (norm_segs r st xs) ys"
  by (induction xs arbitrary: st) auto

lemma norm_segs_clean:
  "list_all clean_seg xs \<Longrightarrow> norm_segs r st xs = st @ xs"
  by (induction xs arbitrary: st) (auto simp: clean_seg_def)

lemma split_intercalate_free:
  "\<forall>w \<in> set st. CHR ''/'' \<notin> set w \<Longrightarrow> st \<noteq> []
   \<Longrightarrow> split_on CHR ''/'' (intercalate ''/'' st) = st"
proof (induction st rule: induct_list012)
  case (3 x y ys)
  have "split_on CHR ''/'' (x @ CHR ''/'' # intercalate ''/'' (y # ys))
        = split_on CHR ''/'' x @ split_on CHR ''/'' (intercalate ''/'' (y # ys))"
    by (rule split_on_append)
  with 3 show ?case by (simp add: split_on_single)
qed (auto simp: split_on_single)

lemma split_intercalate:
  "list_all clean_seg st \<Longrightarrow> st \<noteq> [] \<Longrightarrow> split_on CHR ''/'' (intercalate ''/'' st) = st"
  by (rule split_intercalate_free) (auto simp: list_all_iff clean_seg_def)

lemma intercalate_nonempty: "st \<noteq> [] \<Longrightarrow> hd st \<noteq> [] \<Longrightarrow> intercalate sep st \<noteq> []"
  by (induction st rule: induct_list012) auto

lemma clean_butlast: "list_all clean_seg st \<Longrightarrow> list_all clean_seg (butlast st)"
  by (auto simp: list_all_iff dest: in_set_butlastD)

lemma clean_snoc:
  "list_all clean_seg st \<Longrightarrow> x \<noteq> [] \<Longrightarrow> x \<noteq> ''.'' \<Longrightarrow> x \<noteq> ''..'' \<Longrightarrow> CHR ''/'' \<notin> set x
   \<Longrightarrow> list_all clean_seg (st @ [x])"
  by (simp add: clean_seg_def)

lemma norm_true_clean:
  "list_all clean_seg st \<Longrightarrow> \<forall>w \<in> set xs. CHR ''/'' \<notin> set w
   \<Longrightarrow> list_all clean_seg (norm_segs True st xs)"
proof (induction xs arbitrary: st)
  case (Cons x xs)
  note bl = clean_butlast[OF Cons.prems(1)]
  have xs: "\<forall>w \<in> set xs. CHR ''/'' \<notin> set w" and x: "CHR ''/'' \<notin> set x"
    using Cons.prems(2) by auto
  show ?case
    using Cons.IH[OF Cons.prems(1) xs] Cons.IH[OF bl xs]
      Cons.IH[OF clean_snoc[OF Cons.prems(1) _ _ _ x] xs]
    by simp
qed simp

lemma norm_false_sim:
  "''..'' \<notin> set ys \<Longrightarrow>
   \<exists>k'. norm_segs False (replicate k ''..'' @ ys) xs = replicate k' ''..'' @ norm_segs True ys xs"
proof (induction xs arbitrary: k ys)
  case Nil then show ?case by auto
next
  case (Cons x xs)
  show ?case
  proof (cases "x = [] \<or> x = ''.''")
    case True then show ?thesis using Cons by auto
  next
    case False
    show ?thesis
    proof (cases "x = ''..''")
      case dd: True
      show ?thesis
      proof (cases "ys = []")
        case True
        show ?thesis using Cons.IH[of "[]" "Suc k"] dd True
          by (cases k) (auto simp: replicate_append_same)
      next
        case ne: False
        have l: "last ys \<noteq> ''..''" using Cons.prems ne
          by (metis last_in_set)
        have bl: "''..'' \<notin> set (butlast ys)" using Cons.prems
          by (auto dest: in_set_butlastD)
        show ?thesis using Cons.IH[OF bl, of k] dd ne l
          by (auto simp: butlast_append)
      qed
    next
      case nd: False
      have "''..'' \<notin> set (ys @ [x])" using Cons.prems nd by auto
      from Cons.IH[OF this, of k] show ?thesis using False nd by simp
    qed
  qed
qed

lemma norm_true_dots: "norm_segs True [] (replicate k ''..'' @ xs) = norm_segs True [] xs"
  by (induction k) auto


lemma split_slash_free: "\<forall>w \<in> set (split_on CHR ''/'' s). CHR ''/'' \<notin> set w"
  by (auto dest: split_on_free)

lemma resolve_clean: "list_all clean_seg (resolve s)"
  unfolding resolve_def by (rule norm_true_clean) (simp_all add: split_slash_free)

lemma resolve_abs: "list_all clean_seg st \<Longrightarrow> resolve (CHR ''/'' # intercalate ''/'' st) = st"
proof (cases "st = []")
  case True then show ?thesis by (simp add: resolve_def)
next
  case False
  assume c: "list_all clean_seg st"
  have "split_on CHR ''/'' (CHR ''/'' # intercalate ''/'' st) = [] # st"
    using split_intercalate[OF c False] by simp
  then show ?thesis using norm_segs_clean[OF c, of True "[]"] by (simp add: resolve_def)
qed

lemma Clean_relative:
  assumes "\<not> (s \<noteq> [] \<and> hd s = CHR ''/'')"
  shows "Clean s = (if intercalate ''/'' (norm_segs False [] (split_on CHR ''/'' s)) = [] then ''.''
              else intercalate ''/'' (norm_segs False [] (split_on CHR ''/'' s)))"
proof -
  from assms have e: "(s \<noteq> [] \<and> hd s = CHR ''/'') = False" by simp
  show ?thesis unfolding Clean_def Let_def e by (simp only: if_False)
qed

lemma Clean_rooted:
  assumes "s \<noteq> [] \<and> hd s = CHR ''/''"
  shows "Clean s = CHR ''/'' # intercalate ''/'' (resolve s)"
proof -
  from assms have e: "(s \<noteq> [] \<and> hd s = CHR ''/'') = True" by simp
  show ?thesis unfolding Clean_def Let_def e resolve_def by (simp only: if_True)
qed

lemma resolve_Clean: "resolve (Clean s) = resolve s"
proof (cases "s \<noteq> [] \<and> hd s = CHR ''/''")
  case True
  then have "Clean s = CHR ''/'' # intercalate ''/'' (resolve s)"
    by (rule Clean_rooted)
  then show ?thesis using resolve_abs[OF resolve_clean] by simp
next
  case False
  obtain k where k: "norm_segs False [] (split_on CHR ''/'' s) = replicate k ''..'' @ resolve s"
    using norm_false_sim[of "[]" 0 "split_on CHR ''/'' s"] by (auto simp: resolve_def)
  let ?st = "replicate k ''..'' @ resolve s"
  have nf: "\<forall>w \<in> set ?st. w \<noteq> [] \<and> CHR ''/'' \<notin> set w"
  proof
    fix w assume "w \<in> set ?st"
    then consider "w = ''..''" | "w \<in> set (resolve s)" by auto
    then show "w \<noteq> [] \<and> CHR ''/'' \<notin> set w"
    proof cases
      case 1 then show ?thesis by simp
    next
      case 2
      with resolve_clean[of s] have "clean_seg w" by (simp add: list_all_iff)
      then show ?thesis by (simp add: clean_seg_def)
    qed
  qed
  show ?thesis
  proof (cases "?st = []")
    case True
    then have "Clean s = ''.''" using k by (simp add: Clean_relative[OF False])
    moreover have "resolve s = []" using True by simp
    ultimately show ?thesis by (simp add: resolve_def)
  next
    case ne: False
    have "hd ?st \<in> set ?st" using ne by (rule hd_in_set)
    with nf have "hd ?st \<noteq> []" by blast
    then have b: "intercalate ''/'' ?st \<noteq> []" using ne by (rule intercalate_nonempty[rotated])
    have "Clean s = intercalate ''/'' ?st" using k b by (simp add: Clean_relative[OF False])
    moreover have "split_on CHR ''/'' (intercalate ''/'' ?st) = ?st"
      using nf ne by (intro split_intercalate_free) auto
    ultimately have "resolve (Clean s) = norm_segs True [] ?st" by (simp add: resolve_def)
    also have "\<dots> = norm_segs True [] (resolve s)" by (rule norm_true_dots)
    also have "\<dots> = resolve s" using norm_segs_clean[OF resolve_clean, of True "[]" s] by simp
    finally show ?thesis .
  qed
qed

lemma hexdigit_in: "n < 16 \<Longrightarrow> hextable ! n \<in> set hextable"
  by (rule nth_mem) (simp add: hextable_def)

lemma unat_hi: "unat (drop_bit 4 (b :: 8 word)) < 16"
proof -
  have "unat (drop_bit 4 b) = unat b div 2 ^ 4"
    by (simp add: unat_drop_bit_eq drop_bit_eq_div unat_div)
  moreover have "unat b < 256" using unsigned_less[of b] by simp
  ultimately show ?thesis by simp
qed

lemma unat_lo: "unat ((b :: 8 word) AND 15) < 16"
proof -
  have "b AND 15 \<le> 15" by (rule word_and_le1)
  then have "unat (b AND 15) \<le> unat (15 :: 8 word)" by (simp add: word_le_nat_alt)
  then show ?thesis by simp
qed

lemma hex_length: "length (hex_EncodeToString bs) = 2 * length bs"
  by (induction bs) (simp_all add: hex_EncodeToString_def)

lemma hex_set: "set (hex_EncodeToString bs) \<subseteq> set hextable"
proof (induction bs)
  case Nil then show ?case by (simp add: hex_EncodeToString_def)
next
  case (Cons b bs)
  have "hex_EncodeToString (b # bs) =
        hextable ! unat (drop_bit 4 b) # hextable ! unat (b AND 15) # hex_EncodeToString bs"
    by (simp add: hex_EncodeToString_def)
  then show ?case using Cons hexdigit_in[OF unat_hi[of b]] hexdigit_in[OF unat_lo[of b]]
    by simp
qed

lemma hextable_plain: "c \<in> set hextable \<Longrightarrow> c \<noteq> CHR ''/'' \<and> c \<noteq> CHR ''.''"
  by (auto simp: hextable_def)

lemma hash_length: "length (hash_of X key) = 32"
  using Rep_digest[of "md5_Sum X key"] by (simp add: hash_of_def hex_length)

lemma hash_set: "c \<in> set (hash_of X key) \<Longrightarrow> c \<in> set hextable"
  using hex_set by (auto simp: hash_of_def)

lemma hash_clean: "clean_seg (hash_of X key)"
proof -
  have "CHR ''/'' \<notin> set (hash_of X key)" using hash_set hextable_plain by blast
  moreover have "length (hash_of X key) \<noteq> 0" "length (hash_of X key) \<noteq> 1" "length (hash_of X key) \<noteq> 2"
    by (simp_all add: hash_length)
  ultimately show ?thesis unfolding clean_seg_def by auto
qed

lemma hash_nth_clean: "i < 32 \<Longrightarrow> clean_seg [hash_of X key ! i]"
proof -
  assume "i < 32"
  then have "hash_of X key ! i \<in> set (hash_of X key)" by (simp add: hash_length)
  from hextable_plain[OF hash_set[OF this]] show ?thesis by (auto simp: clean_seg_def)
qed

lemma split_keys_length: "2 \<le> length (split_on c key) \<longleftrightarrow> c \<in> set key"
  by (induction key) (auto split: list.splits simp: split_on_nonempty)

lemma split_keys_hd: "split_on c key ! 0 = takeWhile (\<lambda>x. x \<noteq> c) key"
  by (induction key) (auto split: list.splits simp: split_on_nonempty)

lemma filepath_eq:
  "FileCache_filepath X c key =
     Join [rootPath c @ bucket_path key, [hash_of X key ! 0], [hash_of X key ! 1], hash_of X key]"
  by (simp add: FileCache_filepath_def Let_def hash_of_def bucket_path_def split_keys_length
      split_keys_hd)


lemma intercalate_snoc:
  "A \<noteq> [] \<Longrightarrow> intercalate sep (A @ [h]) = intercalate sep A @ sep @ h"
  by (induction A rule: induct_list012) auto

lemma resolve_snoc: "clean_seg h \<Longrightarrow> resolve (pre @ CHR ''/'' # h) = resolve pre @ [h]"
proof -
  assume h: "clean_seg h"
  then have sp: "split_on CHR ''/'' h = [h]" by (simp add: split_on_single clean_seg_def)
  have "resolve (pre @ CHR ''/'' # h) = norm_segs True (resolve pre) [h]"
    by (simp only: resolve_def split_on_append norm_segs_append sp)
  also have "\<dots> = resolve pre @ [h]" using h by (intro norm_segs_clean) simp
  finally show ?thesis .
qed

lemma resolve_empty: "resolve [] = []"
  by (simp add: resolve_def)

lemma file_path_eq:
  "file_path X c key =
     resolve (rootPath c @ bucket_path key)
       @ [[hash_of X key ! 0], [hash_of X key ! 1], hash_of X key]"
proof -
  let ?r = "rootPath c @ bucket_path key"
  let ?h = "hash_of X key"
  have c: "clean_seg [?h ! 0]" "clean_seg [?h ! 1]" "clean_seg ?h"
    by (simp_all add: hash_nth_clean hash_clean)
  have ne: "?h \<noteq> []" using c(3) by (simp add: clean_seg_def)
  show ?thesis
  proof (cases "?r = []")
    case True
    then have "FileCache_filepath X c key = Clean (([?h ! 0] @ CHR ''/'' # [?h ! 1]) @ CHR ''/'' # ?h)"
      using ne by (simp add: filepath_eq Join_def)
    then have "file_path X c key = resolve (([?h ! 0] @ CHR ''/'' # [?h ! 1]) @ CHR ''/'' # ?h)"
      by (simp only: file_path_def resolve_Clean)
    also have "\<dots> = resolve [?h ! 0] @ [[?h ! 1], ?h]"
      using c by (simp only: resolve_snoc) simp
    also have "resolve [?h ! 0] = [[?h ! 0]]"
      using c(1) by (auto simp: resolve_def clean_seg_def)
    finally show ?thesis using True by (simp add: resolve_empty)
  next
    case False
    then have "FileCache_filepath X c key
        = Clean (((?r @ CHR ''/'' # [?h ! 0]) @ CHR ''/'' # [?h ! 1]) @ CHR ''/'' # ?h)"
      using ne by (simp add: filepath_eq Join_def)
    then have "file_path X c key
        = resolve (((?r @ CHR ''/'' # [?h ! 0]) @ CHR ''/'' # [?h ! 1]) @ CHR ''/'' # ?h)"
      by (simp only: file_path_def resolve_Clean)
    then show ?thesis using c by (simp only: resolve_snoc) simp
  qed
qed

section \<open>Writing a file: lemmas\<close>

lemma dir_strip: "CHR ''/'' \<notin> set h \<Longrightarrow>
  rev (dropWhile (\<lambda>c. c \<noteq> CHR ''/'') (rev (pre @ CHR ''/'' # h))) = pre @ ''/''"
proof -
  assume h: "CHR ''/'' \<notin> set h"
  have "dropWhile (\<lambda>c. c \<noteq> CHR ''/'') (rev h @ CHR ''/'' # rev pre) = CHR ''/'' # rev pre"
    using h by (subst dropWhile_append2) auto
  then show ?thesis by simp
qed

lemma resolve_trailing: "resolve (pre @ ''/'') = resolve pre"
proof -
  have "split_on CHR ''/'' (pre @ CHR ''/'' # []) = split_on CHR ''/'' pre @ split_on CHR ''/'' []"
    by (rule split_on_append)
  then show ?thesis by (simp add: resolve_def norm_segs_append)
qed

lemma Dir_snoc:
  assumes h: "clean_seg h" and f: "f = pre @ CHR ''/'' # h"
  shows "resolve (filepath_Dir f) = butlast (resolve f)"
proof -
  have nf: "CHR ''/'' \<notin> set h" using h by (simp add: clean_seg_def)
  have "filepath_Dir f = Clean (pre @ ''/'')"
    unfolding filepath_Dir_def f by (simp only: dir_strip[OF nf])
  then have "resolve (filepath_Dir f) = resolve pre"
    by (simp only: resolve_Clean resolve_trailing)
  moreover have "resolve f = resolve pre @ [h]" unfolding f by (rule resolve_snoc[OF h])
  ultimately show ?thesis by simp
qed

lemma Clean_snoc_form:
  assumes x: "clean_seg x" and h: "clean_seg h"
  shows "\<exists>pre'. Clean ((pre @ CHR ''/'' # x) @ CHR ''/'' # h) = pre' @ CHR ''/'' # h"
proof -
  let ?p = "pre @ CHR ''/'' # x"
  let ?S = "?p @ CHR ''/'' # h"
  have rp: "resolve ?p = resolve pre @ [x]" by (rule resolve_snoc[OF x])
  have rS: "resolve ?S = resolve ?p @ [h]" by (rule resolve_snoc[OF h])
  show ?thesis
  proof (cases "?S \<noteq> [] \<and> hd ?S = CHR ''/''")
    case True
    have "Clean ?S = CHR ''/'' # intercalate ''/'' (resolve ?p @ [h])"
      using Clean_rooted[OF True] rS by simp
    also have "\<dots> = (CHR ''/'' # intercalate ''/'' (resolve ?p)) @ CHR ''/'' # h"
      using intercalate_snoc[of "resolve pre @ [x]" "''/''" h] by (simp add: rp)
    finally show ?thesis by blast
  next
    case False
    let ?A = "norm_segs False [] (split_on CHR ''/'' pre)"
    have sx: "split_on CHR ''/'' x = [x]" and sh: "split_on CHR ''/'' h = [h]"
      using x h by (simp_all add: split_on_single clean_seg_def)
    have "split_on CHR ''/'' ?S = split_on CHR ''/'' pre @ [x, h]"
      by (simp only: split_on_append sx sh) simp
    moreover have "norm_segs False [] (split_on CHR ''/'' pre @ [x, h]) = norm_segs False ?A [x, h]"
      by (rule norm_segs_append)
    moreover have "norm_segs False ?A [x, h] = ?A @ [x, h]"
      by (rule norm_segs_clean) (simp add: x h)
    ultimately have n: "norm_segs False [] (split_on CHR ''/'' ?S) = ?A @ [x, h]"
      by simp
    have i: "intercalate ''/'' (?A @ [x, h]) = intercalate ''/'' (?A @ [x]) @ CHR ''/'' # h"
      using intercalate_snoc[of "?A @ [x]" "''/''" h] by simp
    have "Clean ?S = intercalate ''/'' (?A @ [x]) @ CHR ''/'' # h"
      by (simp only: Clean_relative[OF False] n i) simp
    then show ?thesis by blast
  qed
qed

lemma filepath_form:
  "\<exists>pre'. FileCache_filepath X c key = pre' @ CHR ''/'' # hash_of X key"
proof -
  let ?r = "rootPath c @ bucket_path key"
  let ?h = "hash_of X key"
  have c: "clean_seg [?h ! 0]" "clean_seg [?h ! 1]" "clean_seg ?h"
    by (simp_all add: hash_nth_clean hash_clean)
  have ne: "?h \<noteq> []" using c(3) by (simp add: clean_seg_def)
  show ?thesis
  proof (cases "?r = []")
    case True
    then have "FileCache_filepath X c key = Clean (([?h ! 0] @ CHR ''/'' # [?h ! 1]) @ CHR ''/'' # ?h)"
      using ne by (simp add: filepath_eq Join_def)
    then show ?thesis using Clean_snoc_form[OF c(2) c(3), of "[?h ! 0]"] by simp
  next
    case False
    then have "FileCache_filepath X c key
        = Clean (((?r @ CHR ''/'' # [?h ! 0]) @ CHR ''/'' # [?h ! 1]) @ CHR ''/'' # ?h)"
      using ne by (simp add: filepath_eq Join_def)
    then show ?thesis using Clean_snoc_form[OF c(2) c(3), of "?r @ CHR ''/'' # [?h ! 0]"] by simp
  qed
qed

lemma Dir_filepath:
  "resolve (filepath_Dir (FileCache_filepath X c key)) = butlast (file_path X c key)"
proof -
  obtain pre' where "FileCache_filepath X c key = pre' @ CHR ''/'' # hash_of X key"
    using filepath_form by blast
  from Dir_snoc[OF hash_clean this] show ?thesis by (simp add: file_path_def)
qed

lemma mkdir_all_noop:
  "(\<And>k. 1 \<le> k \<Longrightarrow> k \<le> length ss \<Longrightarrow> map_of fs (p @ take k ss) = Some Dir)
   \<Longrightarrow> mkdir_all fs p ss = (fs, None)"
proof (induction ss arbitrary: p)
  case Nil then show ?case by simp
next
  case (Cons s ss)
  have 1: "map_of fs (p @ [s]) = Some Dir" using Cons.prems[of 1] by simp
  have "mkdir_all fs (p @ [s]) ss = (fs, None)"
  proof (rule Cons.IH)
    fix k assume "1 \<le> k" "k \<le> length ss"
    then show "map_of fs ((p @ [s]) @ take k ss) = Some Dir" using Cons.prems[of "Suc k"] by simp
  qed
  with 1 show ?case by simp
qed

lemma parents_ok_mkdir: "parents_ok fs p \<Longrightarrow> mkdir_all fs [] (butlast p) = (fs, None)"
proof (rule mkdir_all_noop)
  fix k assume p: "parents_ok fs p" and k: "1 \<le> k" "k \<le> length (butlast p)"
  then have "k \<in> set [1..<length p]" by auto
  with p have "map_of fs (take k p) = Some Dir" by (simp add: parents_ok_def list_all_iff)
  moreover have "take k (butlast p) = take k p" using k by (simp add: take_butlast)
  ultimately show "map_of fs ([] @ take k (butlast p)) = Some Dir" by simp
qed

lemma parents_ok_is_dir: "parents_ok fs p \<Longrightarrow> is_dir fs (butlast p)"
proof (cases "length p \<le> 1")
  case True
  then have "butlast p = []" by (cases p) auto
  then show ?thesis by (simp add: is_dir_def)
next
  case False
  assume p: "parents_ok fs p"
  from False have "length p - 1 \<in> set [1..<length p]" by auto
  with p have "map_of fs (take (length p - 1) p) = Some Dir" by (simp add: parents_ok_def list_all_iff)
  then show ?thesis by (simp add: is_dir_def butlast_conv_take)
qed

lemma file_path_nonempty: "file_path X c key \<noteq> []"
  by (simp add: file_path_eq)


lemma gob_stored: "gob_registered (stored X val)"
  by (cases val) (simp_all add: stored_def json_Marshal_def)

lemma Set_ok:
  assumes "parents_ok fs (file_path X c key)" and "map_of fs (file_path X c key) \<noteq> Some Dir"
  shows "FileCache_Set X c now fs key val expire =
    (AList.update (file_path X c key)
       (File (Gob \<lparr>Val = stored X val, Created = now, Expire = expire\<rparr>)) fs, None)"
proof -
  have m: "os_MkdirAll fs (filepath_Dir (FileCache_filepath X c key)) = (fs, None)"
    using parents_ok_mkdir[OF assms(1)] by (simp add: os_MkdirAll_def Dir_filepath)
  have w: "write_file fs (file_path X c key) d = (AList.update (file_path X c key) (File d) fs, None)" for d
    using assms(2) parents_ok_is_dir[OF assms(1)] file_path_nonempty[of X c key]
    by (simp add: write_file_def is_dir_def)
  show ?thesis using gob_stored[of X val]
    by (simp add: FileCache_Set_def Let_def EncodeGob_def m os_WriteFile_def w stored_def
        file_path_def[symmetric])
qed


section \<open>The store in terms of the place of a key: lemmas\<close>

lemma read_eq:
  "FileCache_read X c fs key =
     (case map_of fs (file_path X c key) of
        Some (File d) \<Rightarrow> DecodeGob d
      | Some Dir \<Rightarrow> Inl EISDIR
      | None \<Rightarrow> Inl ENOENT)"
  using file_path_nonempty[of X c key]
  by (simp add: FileCache_read_def os_ReadFile_def file_path_def split: option.splits node.splits)

lemma read_Inr:
  "FileCache_read X c fs key = Inr item \<longleftrightarrow> map_of fs (file_path X c key) = Some (File (Gob item))"
  by (auto simp: read_eq split: option.splits node.splits elim: DecodeGob.elims)

lemma Incr_not_counter: "\<not> counter_type v \<Longrightarrow> Incr v = (v, Some TypeMismatch)"
  by (cases v) (simp_all add: TypeMismatch_def)

lemma Decr_not_counter: "\<not> counter_type v \<Longrightarrow> Decr v = (v, Some TypeMismatch)"
  by (cases v) (simp_all add: TypeMismatch_def)

lemma Incr_ok_number: "Incr v = (v', None) \<Longrightarrow> \<not> isNotNumber v'"
  by (cases v) auto

lemma Decr_ok_number: "Decr v = (v', None) \<Longrightarrow> \<not> isNotNumber v'"
  by (cases v) (auto split: if_splits)

lemma Set_success_read:
  assumes "FileCache_Set X c now fs key val expire = (fs', None)"
  shows "FileCache_read X c fs' key = Inr \<lparr>Val = stored X val, Created = now, Expire = expire\<rparr>"
proof -
  let ?item = "\<lparr>Val = stored X val, Created = now, Expire = expire\<rparr>"
  let ?fs1 = "fst (os_MkdirAll fs (filepath_Dir (FileCache_filepath X c key)))"
  have "write_file ?fs1 (file_path X c key) (Gob ?item) = (fs', None)"
    using assms gob_stored[of X val]
    by (simp add: FileCache_Set_def Let_def EncodeGob_def os_WriteFile_def stored_def file_path_def)
  then have "fs' = AList.update (file_path X c key) (File (Gob ?item)) ?fs1"
    by (auto simp: write_file_def split: if_splits)
  then show ?thesis by (simp add: read_Inr update_conv')
qed

lemma Set_eq:
  "FileCache_Set X c now fs key val expire =
     write_file (fst (mkdir_all fs [] (butlast (file_path X c key)))) (file_path X c key)
       (Gob \<lparr>Val = stored X val, Created = now, Expire = expire\<rparr>)"
  using gob_stored[of X val]
  by (simp add: FileCache_Set_def Let_def EncodeGob_def os_WriteFile_def os_MkdirAll_def
      Dir_filepath stored_def file_path_def[symmetric])

lemma Set_frame:
  assumes "parents_ok fs (file_path X c key)"
    and "FileCache_Set X c now fs key val expire = (fs', None)"
  shows "fs' = AList.update (file_path X c key)
       (File (Gob \<lparr>Val = stored X val, Created = now, Expire = expire\<rparr>)) fs"
  using assms(2) parents_ok_mkdir[OF assms(1)]
  by (auto simp: Set_eq write_file_def split: if_splits)

lemma hash_X0: "hash_of X0 key = h0"
  by (simp add: hash_of_def X0_def zero_digest.rep_eq hex_EncodeToString_def h0_def hextable_def
      numeral_eq_Suc)

lemma h0_nth: "h0 ! 0 = CHR ''0''" "h0 ! Suc 0 = CHR ''0''"
  unfolding h0_def by simp_all

lemma file_path_k: "file_path X0 c0 ''k'' = [''cache'', ''0'', ''0'', h0]"
  by (simp add: file_path_eq hash_X0 h0_nth c0_def bucket_path_def resolve_def)

lemma Set_fresh_k:
  "FileCache_Set X0 c0 now [] ''k'' v e =
     (store_at [''cache'', ''0'', ''0'', h0] \<lparr>Val = stored X0 v, Created = now, Expire = e\<rparr>, None)"
  by (simp add: Set_eq file_path_k write_file_def is_dir_def store_at_def)

lemma Remove_eq: "os_Remove fs (FileCache_filepath X c key) = remove_path fs (file_path X c key)"
  by (simp add: os_Remove_def file_path_def)

lemma Exists_eq: "FileCache_Exists X c fs key \<longleftrightarrow> map_of fs (file_path X c key) \<noteq> None"
  using file_path_nonempty[of X c key]
  by (simp add: FileCache_Exists_def IsExist_def file_path_def)

lemma Get_expired:
  assumes "FileCache_read X c fs key = Inr item" and "hasExpired now item"
  shows "FileCache_Get X c now fs key = (AList.delete (file_path X c key) fs, Return (VNil, None))"
  using assms(2) iffD1[OF read_Inr assms(1)]
  by (simp add: FileCache_Get_def assms(1) Remove_eq remove_path_def)

section \<open>Expiry: lemmas\<close>




section \<open>Hash emulation: lemmas\<close>

lemma parents_ok_update: "parents_ok fs p \<Longrightarrow> parents_ok (AList.update p x fs) p"
  by (auto simp: parents_ok_def list_all_iff update_conv')

lemma never_expires: "\<not> hasExpired now \<lparr>Val = v, Created = t, Expire = 0\<rparr>"
  by (simp add: hasExpired_def)

lemma HGetAll_record:
  assumes "FileCache_read X c fs key = Inr item" and "\<not> hasExpired now item"
    and "Val item = VJsonBytes (VMap kvs)"
  shows "FileCache_HGetAll X c now fs key
           = (fs, Return (Some (map (\<lambda>(i, v). (i, ToStr X v)) kvs), None))"
  using assms iffD1[OF read_Inr assms(1)]
  by (simp add: FileCache_HGetAll_def Exists_eq FileCache_Get_def)

lemma HGetAll_scalar:
  assumes "FileCache_read X c fs key = Inr item" and "\<not> hasExpired now item"
    and "\<not> isNotNumber (Val item)"
  shows "FileCache_HGetAll X c now fs key = (fs, Panic)"
  using assms iffD1[OF read_Inr assms(1)]
  by (simp add: FileCache_HGetAll_def Exists_eq FileCache_Get_def)

lemma hash_ops_scalar:
  assumes "FileCache_read X c fs key = Inr item" and "\<not> hasExpired now item"
    and "\<not> isNotNumber (Val item)"
  shows "FileCache_HGetAll X c now fs key = (fs, Panic)"
    and "FileCache_HGet X c now fs key field = (fs, Panic)"
    and "FileCache_HMGet X c now fs key flds = (fs, Panic)"
    and "FileCache_HSet X c now fs key newData = (fs, Panic)"
    and "FileCache_HDel X c now fs key field = (fs, Panic)"
  using HGetAll_scalar[OF assms] iffD1[OF read_Inr assms(1)]
  by (simp_all add: FileCache_HGet_def FileCache_HMGet_def FileCache_HSet_def FileCache_HDel_def
      Exists_eq)

lemma json_a1: "json_string ''a'' = ''a''" "json_string ''1'' = ''1''"
  by simp_all

lemma stored_a1:
  "stored X (VStrMap [(''a'', ''1'')]) = VJsonBytes (VMap [(''a'', VString ''1'')])"
  "stored X (VStrMap []) = VJsonBytes (VMap [])"
  by (simp_all add: stored_def json_Marshal_def json_object_def entries_def json_a1)

lemma delete_only_key: "set (map fst d) \<subseteq> {k} \<Longrightarrow> AList.delete k d = []"
  by (induction d) (auto simp: AList.delete_eq)

lemma clearjunk_update_only:
  assumes "set (map fst d) \<subseteq> {k}"
  shows "AList.clearjunk (map (\<lambda>(i, s). (i, g s)) (AList.update k v d)) = [(k, g v)]"
proof (cases d)
  case Nil then show ?thesis by simp
next
  case (Cons p rest)
  then obtain x where p: "p = (k, x)" using assms by (cases p) auto
  have r: "set (map fst (map (\<lambda>(i, s). (i, g s)) rest)) \<subseteq> {k}" using assms Cons by auto
  show ?thesis using delete_only_key[OF r] by (simp add: Cons p)
qed

lemma stored_a1_over:
  assumes "set (map fst m) \<subseteq> {''a''}"
  shows "stored X (VStrMap (AList.update ''a'' ''1'' (map (\<lambda>(i, v). (i, ToStr X v)) m)))
          = VJsonBytes (VMap [(''a'', VString ''1'')])"
proof -
  have k: "set (map fst (map (\<lambda>(i, v). (i, ToStr X v)) m)) \<subseteq> {''a''}" using assms by auto
  show ?thesis using clearjunk_update_only[OF k, of "\<lambda>s. VString (json_string s)" "''1''"]
    by (simp add: stored_def json_Marshal_def json_object_def entries_def json_a1)
qed

lemma assign_a1:
  "assign_all X (Some d) [(''a'', VString ''1'')] = Return (Some (AList.update ''a'' ''1'' d))"
  by (simp add: assign_all_def entries_def)

lemma HSet_string_map_panics:
  assumes "FileCache_read X c fs key = Inr item" and "\<not> hasExpired now item"
    and "Val item = VJsonBytes (VMap kvs)"
  shows "FileCache_HSet X c now fs key (VStrMap nd) = (fs, Panic)"
  using HGetAll_record[OF assms] iffD1[OF read_Inr assms(1)]
  by (simp add: FileCache_HSet_def Exists_eq)

lemma hash_ops_absent:
  assumes "\<not> FileCache_Exists X c fs key"
  shows "FileCache_HSet X c now fs key newData = (fs, Return (False, None))"
    and "FileCache_HGetAll X c now fs key = (fs, Return (None, Some (ErrorNew ''is empty'')))"
  using assms by (simp_all add: FileCache_HSet_def FileCache_HGetAll_def)

lemma HSet_record:
  assumes "FileCache_read X c fs key = Inr item" and "\<not> hasExpired now item"
    and "Val item = VJsonBytes (VMap m)" and "parents_ok fs (file_path X c key)"
  shows "FileCache_HSet X c now fs key (VMap [(''a'', VString ''1'')])
           = (AList.update (file_path X c key)
                (File (Gob \<lparr>Val = stored X (VStrMap (AList.update ''a'' ''1''
                                   (map (\<lambda>(i, v). (i, ToStr X v)) m))),
                            Created = now, Expire = 0\<rparr>)) fs,
              Return (True, None))"
proof -
  let ?P = "file_path X c key"
  have m: "map_of fs ?P = Some (File (Gob item))" using assms(1) by (simp add: read_Inr)
  then have d: "map_of fs ?P \<noteq> Some Dir" by simp
  show ?thesis
    using m HGetAll_record[OF assms(1) assms(2) assms(3)] Set_ok[OF assms(4) d]
    by (simp add: FileCache_HSet_def Exists_eq assign_a1)
qed

section \<open>The text of a path: lemmas\<close>


lemma split_keys_bucket:
  "(if CHR ''_'' \<in> set key then ''/'' @ split_on CHR ''_'' key ! 0 else []) = bucket_path key"
  by (simp add: bucket_path_def split_keys_hd)











lemma StartAndGC_rootPath_abs: "filepath_IsAbs (StartAndGC_rootPath exePath config)"
proof (cases "filepath_IsAbs (exePath @ ''/'' @ config)")
  case True then show ?thesis by (simp add: StartAndGC_rootPath_def)
next
  case False
  let ?r = "exePath @ ''/'' @ config"
  have "Join [''/'', ?r] = Clean (''/'' @ ''/'' @ ?r)" by (simp add: Join_def)
  also have "\<dots> = CHR ''/'' # intercalate ''/'' (resolve (''/'' @ ''/'' @ ?r))"
    by (rule Clean_rooted) simp
  finally show ?thesis using False by (simp add: StartAndGC_rootPath_def filepath_IsAbs_def)
qed





section \<open>Clearing a bucket: lemmas\<close>

lemma map_of_not_under:
  "map_of (filter (\<lambda>(q, n). \<not> path_under p q) fs) q' = (if path_under p q' then None else map_of fs q')"
  by (induction fs) auto

lemma users_clean: "clean_seg ''users''"
  by (simp add: clean_seg_def)

lemma users_no_dot: "\<not> endsWithDot (r @ ''/users'')"
proof -
  have "(r @ ''/users'') ! (length (r @ ''/users'') - 1) = CHR ''s''"
    by (simp add: nth_append)
  then show ?thesis by (simp add: endsWithDot_def)
qed

lemma Clear_users:
  "FileCache_Clear X c fs ''users''
     = (filter (\<lambda>(q, n). \<not> path_under (resolve (rootPath c) @ [''users'']) q) fs, None)"
  using resolve_snoc[OF users_clean, of "rootPath c"] users_no_dot[of "rootPath c"]
  by (simp add: FileCache_Clear_def os_RemoveAll_def)

lemma under_snoc: "path_under (R @ [u]) (R @ x # xs) \<longleftrightarrow> x = u"
  by (auto simp: path_under_def)

lemma file_path_users:
  "file_path X c (''users_'' @ rest)
     = resolve (rootPath c) @ [''users'', [hash_of X (''users_'' @ rest) ! 0],
         [hash_of X (''users_'' @ rest) ! 1], hash_of X (''users_'' @ rest)]"
  using resolve_snoc[OF users_clean, of "rootPath c"]
  by (simp add: file_path_eq bucket_path_def)

lemma file_path_plain:
  "CHR ''_'' \<notin> set key \<Longrightarrow>
   file_path X c key
     = resolve (rootPath c) @ [[hash_of X key ! 0], [hash_of X key ! 1], hash_of X key]"
  by (simp add: file_path_eq bucket_path_def)

lemma file_path_bucket:
  "CHR ''_'' \<in> set key \<Longrightarrow> clean_seg (split_on CHR ''_'' key ! 0) \<Longrightarrow>
   file_path X c key
     = resolve (rootPath c) @ [split_on CHR ''_'' key ! 0, [hash_of X key ! 0],
         [hash_of X key ! 1], hash_of X key]"
  using resolve_snoc[of "split_on CHR ''_'' key ! 0" "rootPath c"]
  by (simp add: file_path_eq bucket_path_def split_keys_hd)

lemma file_path_demo:
  "file_path X0 c0 ''users_42'' = [''cache'', ''users'', ''0'', ''0'', h0]"
  "file_path X0 c0 ''orders_1'' = [''cache'', ''orders'', ''0'', ''0'', h0]"
  "file_path X0 c0 ''users/eu_7'' = [''cache'', ''users'', ''eu'', ''0'', ''0'', h0]"
  by (simp_all add: file_path_eq hash_X0 h0_nth c0_def bucket_path_def resolve_def)

lemma stored_ann:
  "stored X0 (VMap [(''name'', VString ''Ann'')]) = VJsonBytes (VMap [(''name'', VString ''Ann'')])"
  by (simp add: stored_def json_Marshal_def json_object_def entries_def)

lemma demo_store_eq:
  "demo_store =
     [([''cache''], Dir), ([''cache'', ''users''], Dir), ([''cache'', ''users'', ''0''], Dir),
      ([''cache'', ''users'', ''0'', ''0''], Dir),
      ([''cache'', ''users'', ''0'', ''0'', h0],
       File (Gob \<lparr>Val = VJsonBytes (VMap [(''name'', VString ''Ann'')]), Created = 100, Expire = 0\<rparr>)),
      ([''cache'', ''orders''], Dir), ([''cache'', ''orders'', ''0''], Dir),
      ([''cache'', ''orders'', ''0'', ''0''], Dir),
      ([''cache'', ''orders'', ''0'', ''0'', h0],
       File (Gob \<lparr>Val = VString ''o'', Created = 101, Expire = 0\<rparr>)),
      ([''cache'', ''0''], Dir), ([''cache'', ''0'', ''0''], Dir),
      ([''cache'', ''0'', ''0'', h0], File (Gob \<lparr>Val = VString ''p'', Created = 102, Expire = 0\<rparr>))]"
  by (simp add: demo_store_def Set_eq file_path_demo file_path_k write_file_def is_dir_def
      stored_ann) (simp add: stored_def)

section \<open>Garbage collection: lemmas\<close>

lemma sweep_append:
  "sweep now fs (as @ bs) =
     (case sweep now fs as of (fs1, None) \<Rightarrow> sweep now fs1 bs | (fs1, Some e) \<Rightarrow> (fs1, Some e))"
proof (induction as arbitrary: fs)
  case Nil then show ?case by simp
next
  case (Cons a as)
  show ?case
    by (simp add: Cons.IH remove_path_def split: option.splits node.splits sum.splits prod.splits)
qed

lemma expired_file_delete:
  "q \<noteq> p \<Longrightarrow> expired_file now (AList.delete p fs) q = expired_file now fs q"
  by (simp add: expired_file_def delete_conv')

lemma junk_file_delete:
  "q \<noteq> p \<Longrightarrow> junk_file (AList.delete p fs) q = junk_file fs q"
  by (simp add: junk_file_def delete_conv')

lemma sweep_map:
  assumes "distinct ps" and "\<forall>p \<in> set ps. map_of fs p \<noteq> None"
    and "\<forall>p \<in> set ps. \<not> junk_file fs p"
  shows "\<exists>fs'. sweep now fs ps = (fs', None)
           \<and> (\<forall>q. map_of fs' q = (if q \<in> set ps \<and> expired_file now fs q then None else map_of fs q))"
  using assms
proof (induction ps arbitrary: fs)
  case Nil then show ?case by simp
next
  case (Cons p ps)
  from Cons.prems obtain n where n: "map_of fs p = Some n" by auto
  have d: "distinct ps" "p \<notin> set ps" using Cons.prems(1) by auto
  show ?case
  proof (cases "expired_file now fs p")
    case False
    from Cons.IH[of fs] d Cons.prems obtain fs' where
      s: "sweep now fs ps = (fs', None)"
      and m: "\<forall>q. map_of fs' q = (if q \<in> set ps \<and> expired_file now fs q then None else map_of fs q)"
      by auto
    have "sweep now fs (p # ps) = sweep now fs ps"
      using n False Cons.prems(3)
      by (auto simp: expired_file_def junk_file_def split: node.splits fdata.splits)
    with s m False show ?thesis by auto
  next
    case True
    then obtain item where i: "map_of fs p = Some (File (Gob item))" and e: "hasExpired now item"
      by (auto simp: expired_file_def split: option.splits node.splits fdata.splits)
    let ?fs1 = "AList.delete p fs"
    have 1: "\<forall>q \<in> set ps. map_of ?fs1 q \<noteq> None" using Cons.prems(2) d by (auto simp: delete_conv')
    have 2: "\<forall>q \<in> set ps. \<not> junk_file ?fs1 q"
    proof
      fix q assume q: "q \<in> set ps"
      then have "q \<noteq> p" using d by auto
      then show "\<not> junk_file ?fs1 q" using Cons.prems(3) q by (simp add: junk_file_delete)
    qed
    from Cons.IH[OF d(1) 1 2] obtain fs' where
      s: "sweep now ?fs1 ps = (fs', None)"
      and m: "\<forall>q. map_of fs' q = (if q \<in> set ps \<and> expired_file now ?fs1 q then None else map_of ?fs1 q)"
      by auto
    have "sweep now fs (p # ps) = sweep now ?fs1 ps"
      using i e by (simp add: remove_path_def)
    moreover have "map_of fs' q = (if q \<in> set (p # ps) \<and> expired_file now fs q then None else map_of fs q)" for q
    proof (cases "q = p")
      case True
      then show ?thesis using m d True \<open>expired_file now fs p\<close> by (simp add: delete_conv')
    next
      case False
      then show ?thesis using m by (simp add: expired_file_delete delete_conv')
    qed
    ultimately show ?thesis using s by auto
  qed
qed

lemma sweep_junk:
  assumes "junk_file fs p"
  shows "sweep now fs (p # bs) = (fs, Some GobError)"
  using assms by (auto simp: junk_file_def split: option.splits node.splits fdata.splits)

lemma sweep_abort:
  assumes "distinct ps" and "sorted ps" and "\<forall>p \<in> set ps. map_of fs p \<noteq> None"
    and "\<exists>p \<in> set ps. junk_file fs p"
  shows "\<exists>fs' p. sweep now fs ps = (fs', Some GobError) \<and> p \<in> set ps \<and> junk_file fs p
           \<and> (\<forall>q. p \<le> q \<longrightarrow> map_of fs' q = map_of fs q)"
proof -
  from assms(4) obtain as p bs where ps: "ps = as @ p # bs" and j: "junk_file fs p"
    and nj: "\<forall>a \<in> set as. \<not> junk_file fs a"
    using split_list_first_prop[of ps "junk_file fs"] by blast
  have das: "distinct as" and pas: "p \<notin> set as" using assms(1) ps by auto
  have pres: "\<forall>a \<in> set as. map_of fs a \<noteq> None" using assms(3) ps by auto
  from sweep_map[OF das pres nj] obtain fs1 where
    s: "sweep now fs as = (fs1, None)"
    and m: "\<forall>q. map_of fs1 q = (if q \<in> set as \<and> expired_file now fs q then None else map_of fs q)"
    by blast
  have "map_of fs1 p = map_of fs p" using m pas by simp
  then have j1: "junk_file fs1 p" using j by (simp add: junk_file_def)
  have "sweep now fs ps =
      (case sweep now fs as of (fs1, None) \<Rightarrow> sweep now fs1 (p # bs)
       | (fs1, Some e) \<Rightarrow> (fs1, Some e))"
    unfolding ps by (rule sweep_append)
  then have r: "sweep now fs ps = (fs1, Some GobError)"
    by (simp only: s prod.case option.case sweep_junk[OF j1])
  have lt: "\<forall>a \<in> set as. a < p"
  proof
    fix a assume a: "a \<in> set as"
    have "a \<le> p" using assms(2) a by (simp add: ps sorted_append)
    moreover have "a \<noteq> p" using a pas by auto
    ultimately show "a < p" by simp
  qed
  have "map_of fs1 q = map_of fs q" if "p \<le> q" for q
  proof -
    have "q \<notin> set as" using lt that by auto
    then show ?thesis using m by simp
  qed
  then show ?thesis using r j ps by auto
qed

lemma walk_paths_set: "set (walk_paths fs root) = {q \<in> fst ` set fs. path_under root q}"
  by (auto simp: walk_paths_def)

lemma walk_paths_distinct: "distinct (walk_paths fs root)" "sorted (walk_paths fs root)"
  by (simp_all add: walk_paths_def)

lemma walk_paths_present: "\<forall>p \<in> set (walk_paths fs root). map_of fs p \<noteq> None"
  by (auto simp: walk_paths_set map_of_eq_None_iff)

lemma expired_file_present: "expired_file now fs q \<Longrightarrow> q \<in> fst ` set fs"
proof -
  assume "expired_file now fs q"
  then obtain n where "map_of fs q = Some n"
    by (auto simp: expired_file_def split: option.splits)
  then have "(q, n) \<in> set fs" by (rule map_of_SomeD)
  then show ?thesis by force
qed

section \<open>Record codec: lemmas\<close>




lemma show_nat_nonempty: "show_nat n \<noteq> []"
  by (subst show_nat.simps) simp

















section \<open>Claims\<close>

text \<open>
  C1. For a key whose stored entry is expired, \<^verbatim>\<open>Get\<close> deletes the backing file and
  is claimed to return a NotFound error. The code returns the error of the read, which
  is nil: after \<^verbatim>\<open>Set("k", "v", 1)\<close> at second 100, \<^verbatim>\<open>Get("k")\<close> at second 101 removes
  the file and returns a nil value with a nil error.
\<close>

theorem C1_expired_get_returns_nil_nil:
  "FileCache_Set X0 c0 100 [] ''k'' (VString ''v'') 1
     = (store_at [''cache'', ''0'', ''0'', h0] \<lparr>Val = VString ''v'', Created = 100, Expire = 1\<rparr>, None)
   \<and> hasExpired 101 \<lparr>Val = VString ''v'', Created = 100, Expire = 1\<rparr>
   \<and> FileCache_Get X0 c0 101
        (store_at [''cache'', ''0'', ''0'', h0] \<lparr>Val = VString ''v'', Created = 100, Expire = 1\<rparr>) ''k''
     = ([([''cache''], Dir), ([''cache'', ''0''], Dir), ([''cache'', ''0'', ''0''], Dir)],
        Return (VNil, None))"
proof -
  let ?item = "\<lparr>Val = VString ''v'', Created = 100, Expire = 1\<rparr>"
  let ?fs = "store_at [''cache'', ''0'', ''0'', h0] ?item"
  have e: "hasExpired 101 ?item" by (simp add: hasExpired_def word_sless_alt word_sle_eq)
  have r: "FileCache_read X0 c0 ?fs ''k'' = Inr ?item"
    by (simp add: read_Inr file_path_k store_at_def)
  show ?thesis using Get_expired[OF r e] e
    by (simp add: Set_fresh_k stored_def file_path_k) (simp add: store_at_def AList.delete_eq)
qed

text \<open>
  C2, as amended. For a key that holds an unexpired record with no field other than
  \<^verbatim>\<open>a\<close>, in a file system where the directories above its file exist,
  \<^verbatim>\<open>HSet(k, m)\<close> with \<^verbatim>\<open>m\<close> the \<^verbatim>\<open>map[string]interface{}\<close> value \<^verbatim>\<open>{a:"1"}\<close>, followed by
  \<^verbatim>\<open>HGetAll(k)\<close>, returns exactly the mapping \<^verbatim>\<open>{a:"1"}\<close>, and a subsequent
  \<^verbatim>\<open>HDel(k, "a")\<close> followed by \<^verbatim>\<open>HGetAll(k)\<close> returns the empty mapping. Each of the
  two writes puts the whole record back in place with TTL 0. For a key that has no
  file, \<^verbatim>\<open>HSet\<close> returns false and no error and writes nothing, whatever it is
  given, and \<^verbatim>\<open>HGetAll\<close> returns the error \<^verbatim>\<open>is empty\<close>. The statement is silent on a
  map of another type handed to \<^verbatim>\<open>HSet\<close>, which passes the kind check and fails the
  type assertion after it (\<open>HSet_string_map_panics\<close>).
\<close>

theorem C2_hset_hgetall_hdel:
  "(FileCache_read X c fs key = Inr item
      \<and> Val item = VJsonBytes (VMap m) \<and> set (map fst m) \<subseteq> {''a''}
      \<and> \<not> hasExpired now item
      \<and> parents_ok fs (file_path X c key)
      \<and> fs1 = AList.update (file_path X c key)
           (File (Gob \<lparr>Val = VJsonBytes (VMap [(''a'', VString ''1'')]), Created = now, Expire = 0\<rparr>)) fs
      \<and> fs2 = AList.update (file_path X c key)
           (File (Gob \<lparr>Val = VJsonBytes (VMap []), Created = now2, Expire = 0\<rparr>)) fs1
    \<longrightarrow> FileCache_HSet X c now fs key (VMap [(''a'', VString ''1'')]) = (fs1, Return (True, None))
       \<and> FileCache_HGetAll X c now1 fs1 key = (fs1, Return (Some [(''a'', ''1'')], None))
       \<and> FileCache_HDel X c now2 fs1 key ''a'' = (fs2, Return None)
       \<and> FileCache_HGetAll X c now3 fs2 key = (fs2, Return (Some [], None)))
   \<and> (\<not> FileCache_Exists X c fs0 key0
    \<longrightarrow> FileCache_HSet X c now0 fs0 key0 newData = (fs0, Return (False, None))
       \<and> FileCache_HGetAll X c now4 fs0 key0
            = (fs0, Return (None, Some (ErrorNew ''is empty''))))"
proof (intro conjI impI)
  assume "\<not> FileCache_Exists X c fs0 key0"
  then show "FileCache_HSet X c now0 fs0 key0 newData = (fs0, Return (False, None))"
    and "FileCache_HGetAll X c now4 fs0 key0 = (fs0, Return (None, Some (ErrorNew ''is empty'')))"
    by (rule hash_ops_absent)+
next
  assume A: "FileCache_read X c fs key = Inr item
      \<and> Val item = VJsonBytes (VMap m) \<and> set (map fst m) \<subseteq> {''a''}
      \<and> \<not> hasExpired now item
      \<and> parents_ok fs (file_path X c key)
      \<and> fs1 = AList.update (file_path X c key)
           (File (Gob \<lparr>Val = VJsonBytes (VMap [(''a'', VString ''1'')]), Created = now, Expire = 0\<rparr>)) fs
      \<and> fs2 = AList.update (file_path X c key)
           (File (Gob \<lparr>Val = VJsonBytes (VMap []), Created = now2, Expire = 0\<rparr>)) fs1"
  let ?P = "file_path X c key"
  from A have r: "FileCache_read X c fs key = Inr item" and v: "Val item = VJsonBytes (VMap m)"
    and k: "set (map fst m) \<subseteq> {''a''}" and e: "\<not> hasExpired now item"
    and p: "parents_ok fs ?P"
    and f1: "fs1 = AList.update ?P
           (File (Gob \<lparr>Val = VJsonBytes (VMap [(''a'', VString ''1'')]), Created = now, Expire = 0\<rparr>)) fs"
    and f2: "fs2 = AList.update ?P
           (File (Gob \<lparr>Val = VJsonBytes (VMap []), Created = now2, Expire = 0\<rparr>)) fs1"
    by blast+
  show 1: "FileCache_HSet X c now fs key (VMap [(''a'', VString ''1'')]) = (fs1, Return (True, None))"
    using HSet_record[OF r e v p] by (simp add: stored_a1_over[OF k] f1)
  have r1: "FileCache_read X c fs1 key
      = Inr \<lparr>Val = VJsonBytes (VMap [(''a'', VString ''1'')]), Created = now, Expire = 0\<rparr>"
    by (simp add: read_Inr f1 update_conv')
  show 2: "FileCache_HGetAll X c now1 fs1 key = (fs1, Return (Some [(''a'', ''1'')], None))"
    using HGetAll_record[OF r1 never_expires] by simp
  have p1: "parents_ok fs1 ?P" unfolding f1 by (rule parents_ok_update[OF p])
  have d1: "map_of fs1 ?P \<noteq> Some Dir" by (simp add: f1 update_conv')
  have s2: "FileCache_Set X c now2 fs1 key (VStrMap []) 0 = (fs2, None)"
    using Set_ok[OF p1 d1] by (simp add: stored_a1 f2)
  have e1: "FileCache_Exists X c fs1 key" by (simp add: Exists_eq f1 update_conv')
  show 3: "FileCache_HDel X c now2 fs1 key ''a'' = (fs2, Return None)"
    using e1 HGetAll_record[where now=now2, OF r1 never_expires] s2
    by (simp add: FileCache_HDel_def AList.delete_eq)
  have r2: "FileCache_read X c fs2 key = Inr \<lparr>Val = VJsonBytes (VMap []), Created = now2, Expire = 0\<rparr>"
    by (simp add: read_Inr f2 update_conv')
  show 4: "FileCache_HGetAll X c now3 fs2 key = (fs2, Return (Some [], None))"
    using HGetAll_record[OF r2 never_expires] by simp
qed

theorem C2_hset_hgetall_hdel_witness:
  "FileCache_read X0 c0
      (store_at [''cache'', ''0'', ''0'', h0]
         \<lparr>Val = VJsonBytes (VMap [(''a'', VString ''x'')]), Created = 100, Expire = 0\<rparr>)
      ''k''
     = Inr \<lparr>Val = VJsonBytes (VMap [(''a'', VString ''x'')]), Created = 100, Expire = 0\<rparr>
   \<and> set (map fst [(''a'', VString ''x'')]) \<subseteq> {''a''}
   \<and> \<not> hasExpired 101 \<lparr>Val = VJsonBytes (VMap [(''a'', VString ''x'')]), Created = 100, Expire = 0\<rparr>
   \<and> parents_ok
      (store_at [''cache'', ''0'', ''0'', h0]
         \<lparr>Val = VJsonBytes (VMap [(''a'', VString ''x'')]), Created = 100, Expire = 0\<rparr>)
      (file_path X0 c0 ''k'')
   \<and> FileCache_HSet X0 c0 101
      (store_at [''cache'', ''0'', ''0'', h0]
         \<lparr>Val = VJsonBytes (VMap [(''a'', VString ''x'')]), Created = 100, Expire = 0\<rparr>)
      ''k'' (VMap [(''a'', VString ''1'')])
     = (store_at [''cache'', ''0'', ''0'', h0]
          \<lparr>Val = VJsonBytes (VMap [(''a'', VString ''1'')]), Created = 101, Expire = 0\<rparr>,
        Return (True, None))
   \<and> FileCache_HGetAll X0 c0 102
      (store_at [''cache'', ''0'', ''0'', h0]
          \<lparr>Val = VJsonBytes (VMap [(''a'', VString ''1'')]), Created = 101, Expire = 0\<rparr>) ''k''
     = (store_at [''cache'', ''0'', ''0'', h0]
          \<lparr>Val = VJsonBytes (VMap [(''a'', VString ''1'')]), Created = 101, Expire = 0\<rparr>,
        Return (Some [(''a'', ''1'')], None))
   \<and> FileCache_HDel X0 c0 103
      (store_at [''cache'', ''0'', ''0'', h0]
          \<lparr>Val = VJsonBytes (VMap [(''a'', VString ''1'')]), Created = 101, Expire = 0\<rparr>) ''k'' ''a''
     = (store_at [''cache'', ''0'', ''0'', h0] \<lparr>Val = VJsonBytes (VMap []), Created = 103, Expire = 0\<rparr>,
        Return None)
   \<and> FileCache_HGetAll X0 c0 104
      (store_at [''cache'', ''0'', ''0'', h0] \<lparr>Val = VJsonBytes (VMap []), Created = 103, Expire = 0\<rparr>)
      ''k''
     = (store_at [''cache'', ''0'', ''0'', h0] \<lparr>Val = VJsonBytes (VMap []), Created = 103, Expire = 0\<rparr>,
        Return (Some [], None))
   \<and> \<not> FileCache_Exists X0 c0 [] ''k''
   \<and> FileCache_HSet X0 c0 100 [] ''k'' (VMap [(''a'', VString ''1'')]) = ([], Return (False, None))
   \<and> FileCache_HGetAll X0 c0 101 [] ''k'' = ([], Return (None, Some (ErrorNew ''is empty'')))"
proof -
  let ?p = "[''cache'', ''0'', ''0'', h0]"
  let ?item = "\<lparr>Val = VJsonBytes (VMap [(''a'', VString ''x'')]), Created = 100, Expire = 0\<rparr>"
  let ?fs1 = "store_at ?p \<lparr>Val = VJsonBytes (VMap [(''a'', VString ''1'')]), Created = 101, Expire = 0\<rparr>"
  let ?fs2 = "store_at ?p \<lparr>Val = VJsonBytes (VMap []), Created = 103, Expire = 0\<rparr>"
  have r: "FileCache_read X0 c0 (store_at ?p ?item) ''k'' = Inr ?item"
    by (simp add: read_Inr file_path_k store_at_def)
  have p: "parents_ok (store_at ?p ?item) (file_path X0 c0 ''k'')"
    by (simp add: parents_ok_def file_path_k store_at_def)
  have u1: "?fs1 = AList.update (file_path X0 c0 ''k'')
      (File (Gob \<lparr>Val = VJsonBytes (VMap [(''a'', VString ''1'')]), Created = 101, Expire = 0\<rparr>))
      (store_at ?p ?item)"
    by (simp add: file_path_k store_at_def)
  have u2: "?fs2 = AList.update (file_path X0 c0 ''k'')
      (File (Gob \<lparr>Val = VJsonBytes (VMap []), Created = 103, Expire = 0\<rparr>)) ?fs1"
    by (simp add: file_path_k store_at_def)
  have v: "Val ?item = VJsonBytes (VMap [(''a'', VString ''x'')])" by simp
  have k: "set (map fst [(''a'', VString ''x'')]) \<subseteq> {''a''}" by simp
  have x: "\<not> FileCache_Exists X0 c0 [] ''k''" by (simp add: Exists_eq)
  note t = C2_hset_hgetall_hdel[where X=X0 and c=c0 and fs="store_at ?p ?item" and key="''k''"
      and item="?item" and m="[(''a'', VString ''x'')]" and now=101 and ?fs1.0="?fs1"
      and ?fs2.0="?fs2" and ?now1.0=102 and ?now2.0=103 and ?now3.0=104 and ?fs0.0="[]"
      and ?key0.0="''k''" and ?now0.0=100 and ?now4.0=101
      and newData="VMap [(''a'', VString ''1'')]"]
  note a = t[THEN conjunct1, THEN mp, OF conjI[OF r conjI[OF v conjI[OF k conjI[OF never_expires
        conjI[OF p conjI[OF u1 u2]]]]]]]
  note b = t[THEN conjunct2, THEN mp, OF x]
  show ?thesis by (intro conjI r k never_expires p x a[THEN conjunct1]
        a[THEN conjunct2, THEN conjunct1]
        a[THEN conjunct2, THEN conjunct2, THEN conjunct1]
        a[THEN conjunct2, THEN conjunct2, THEN conjunct2]
        b[THEN conjunct1] b[THEN conjunct2])
qed

text \<open>
  The claim as it is written fails for a key that does not exist: \<^verbatim>\<open>HSet\<close> returns
  false without writing anything, and \<^verbatim>\<open>HGetAll\<close> fails. It fails as well for a key
  whose record has another field: \<^verbatim>\<open>{b:"2"}\<close> becomes \<^verbatim>\<open>{a:"1", b:"2"}\<close>.
\<close>

theorem C2_hset_counterexample:
  "FileCache_HSet X0 c0 100 [] ''k'' (VMap [(''a'', VString ''1'')]) = ([], Return (False, None))
   \<and> FileCache_HGetAll X0 c0 101 [] ''k'' = ([], Return (None, Some (ErrorNew ''is empty'')))
   \<and> FileCache_HSet X0 c0 101
        (store_at [''cache'', ''0'', ''0'', h0]
           \<lparr>Val = VJsonBytes (VMap [(''b'', VString ''2'')]), Created = 100, Expire = 0\<rparr>)
        ''k'' (VMap [(''a'', VString ''1'')])
      = (store_at [''cache'', ''0'', ''0'', h0]
           \<lparr>Val = VJsonBytes (VMap [(''b'', VString ''2''), (''a'', VString ''1'')]),
             Created = 101, Expire = 0\<rparr>,
         Return (True, None))
   \<and> FileCache_HGetAll X0 c0 102
        (store_at [''cache'', ''0'', ''0'', h0]
           \<lparr>Val = VJsonBytes (VMap [(''b'', VString ''2''), (''a'', VString ''1'')]),
             Created = 101, Expire = 0\<rparr>)
        ''k''
      = (store_at [''cache'', ''0'', ''0'', h0]
           \<lparr>Val = VJsonBytes (VMap [(''b'', VString ''2''), (''a'', VString ''1'')]),
             Created = 101, Expire = 0\<rparr>,
         Return (Some [(''b'', ''2''), (''a'', ''1'')], None))
   \<and> map_of [(''b'', ''2''), (''a'', ''1'')] ''b'' = Some ''2''
   \<and> map_of [(''a'', ''1'')] ''b'' = None"
proof -
  let ?p = "[''cache'', ''0'', ''0'', h0]"
  let ?item = "\<lparr>Val = VJsonBytes (VMap [(''b'', VString ''2'')]), Created = 100, Expire = 0\<rparr>"
  let ?item1 = "\<lparr>Val = VJsonBytes (VMap [(''b'', VString ''2''), (''a'', VString ''1'')]),
      Created = 101, Expire = 0\<rparr>"
  have 1: "FileCache_HSet X0 c0 100 [] ''k'' (VMap [(''a'', VString ''1'')]) = ([], Return (False, None))"
    and 2: "FileCache_HGetAll X0 c0 101 [] ''k'' = ([], Return (None, Some (ErrorNew ''is empty'')))"
    by (simp_all add: FileCache_HSet_def FileCache_HGetAll_def Exists_eq)
  have r: "FileCache_read X0 c0 (store_at ?p ?item) ''k'' = Inr ?item"
    by (simp add: read_Inr file_path_k store_at_def)
  have p: "parents_ok (store_at ?p ?item) (file_path X0 c0 ''k'')"
    by (simp add: parents_ok_def file_path_k store_at_def)
  have s: "stored X0 (VStrMap [(''b'', ''2''), (''a'', ''1'')])
      = VJsonBytes (VMap [(''b'', VString ''2''), (''a'', VString ''1'')])"
    by (simp add: stored_def json_Marshal_def json_object_def entries_def)
  have 3: "FileCache_HSet X0 c0 101 (store_at ?p ?item) ''k'' (VMap [(''a'', VString ''1'')])
      = (store_at ?p ?item1, Return (True, None))"
    using HSet_record[OF r never_expires _ p, of "[(''b'', VString ''2'')]"]
    by (simp add: s) (simp add: file_path_k store_at_def)
  have r1: "FileCache_read X0 c0 (store_at ?p ?item1) ''k'' = Inr ?item1"
    by (simp add: read_Inr file_path_k store_at_def)
  have 4: "FileCache_HGetAll X0 c0 102 (store_at ?p ?item1) ''k''
      = (store_at ?p ?item1, Return (Some [(''b'', ''2''), (''a'', ''1'')], None))"
    using HGetAll_record[OF r1 never_expires] by simp
  have 5: "map_of [(''b'', ''2''), (''a'', ''1'')] ''b'' = Some ''2''"
    and 6: "map_of [(''a'', ''1'')] ''b'' = None"
    by simp_all
  show ?thesis by (intro conjI 1 2 3 4 5 6)
qed

text \<open>
  C3. For a key whose stored value is not a record, the hash operations are claimed to
  surface a typed failure and never to panic. The code asserts the type of what
  \<^verbatim>\<open>Get\<close> returned without a check: after \<^verbatim>\<open>Set("k", "hello", 0)\<close> or \<^verbatim>\<open>Set("k", 5, 0)\<close>,
  \<^verbatim>\<open>HGetAll\<close> and the four operations built on it panic.
\<close>

theorem C3_hash_ops_panic_on_scalar:
  "FileCache_Set X0 c0 100 [] ''k'' (VString ''hello'') 0
     = (store_at [''cache'', ''0'', ''0'', h0] \<lparr>Val = VString ''hello'', Created = 100, Expire = 0\<rparr>,
        None)
   \<and> snd (FileCache_HGetAll X0 c0 101
        (store_at [''cache'', ''0'', ''0'', h0] \<lparr>Val = VString ''hello'', Created = 100, Expire = 0\<rparr>)
        ''k'') = Panic
   \<and> snd (FileCache_HGet X0 c0 101
        (store_at [''cache'', ''0'', ''0'', h0] \<lparr>Val = VString ''hello'', Created = 100, Expire = 0\<rparr>)
        ''k'' ''a'') = Panic
   \<and> snd (FileCache_HMGet X0 c0 101
        (store_at [''cache'', ''0'', ''0'', h0] \<lparr>Val = VString ''hello'', Created = 100, Expire = 0\<rparr>)
        ''k'' [''a'']) = Panic
   \<and> snd (FileCache_HSet X0 c0 101
        (store_at [''cache'', ''0'', ''0'', h0] \<lparr>Val = VString ''hello'', Created = 100, Expire = 0\<rparr>)
        ''k'' (VMap [(''a'', VString ''1'')])) = Panic
   \<and> snd (FileCache_HDel X0 c0 101
        (store_at [''cache'', ''0'', ''0'', h0] \<lparr>Val = VString ''hello'', Created = 100, Expire = 0\<rparr>)
        ''k'' ''a'') = Panic
   \<and> FileCache_Set X0 c0 100 [] ''k'' (VInt 5) 0
     = (store_at [''cache'', ''0'', ''0'', h0] \<lparr>Val = VInt 5, Created = 100, Expire = 0\<rparr>, None)
   \<and> snd (FileCache_HGetAll X0 c0 101
        (store_at [''cache'', ''0'', ''0'', h0] \<lparr>Val = VInt 5, Created = 100, Expire = 0\<rparr>)
        ''k'') = Panic"
proof -
  let ?p = "[''cache'', ''0'', ''0'', h0]"
  have r: "FileCache_read X0 c0 (store_at ?p item) ''k'' = Inr item" for item
    by (simp add: read_Inr file_path_k store_at_def)
  have s: "\<not> isNotNumber (Val \<lparr>Val = VString ''hello'', Created = 100, Expire = 0\<rparr>)"
    and i: "\<not> isNotNumber (Val \<lparr>Val = VInt 5, Created = 100, Expire = 0\<rparr>)"
    by simp_all
  show ?thesis
    by (simp add: Set_fresh_k stored_def hash_ops_scalar[OF r never_expires s]
        hash_ops_scalar[OF r never_expires i])
qed

text \<open>
  C4, as amended. For a key whose stored value is not of type \<^verbatim>\<open>int\<close>, \<^verbatim>\<open>int32\<close>,
  \<^verbatim>\<open>int64\<close>, \<^verbatim>\<open>uint\<close>, \<^verbatim>\<open>uint32\<close> or \<^verbatim>\<open>uint64\<close>, \<^verbatim>\<open>Incr\<close> and \<^verbatim>\<open>Decr\<close> fail with the
  type mismatch error and leave the store as it was; for a key whose stored value is
  a zero of type \<^verbatim>\<open>uint\<close>, \<^verbatim>\<open>uint32\<close> or \<^verbatim>\<open>uint64\<close>, \<^verbatim>\<open>Decr\<close> fails with the underflow
  error.
\<close>

theorem C4_counter_errors:
  assumes "FileCache_read X c fs key = Inr item"
  shows "(\<not> counter_type (Val item) \<longrightarrow>
            FileCache_Incr X c now fs key = (fs, Some TypeMismatch)
          \<and> FileCache_Decr X c now fs key = (fs, Some TypeMismatch))
       \<and> (Val item = VUint 0 \<or> Val item = VUint32 0 \<or> Val item = VUint64 0 \<longrightarrow>
            FileCache_Decr X c now fs key = (fs, Some Underflow))"
  using assms
  by (auto simp: FileCache_Incr_def FileCache_Decr_def Incr_not_counter Decr_not_counter
      Underflow_def)

text \<open>
  The scenario of the claim: after storing \<^verbatim>\<open>uint(0)\<close>, \<^verbatim>\<open>Incr\<close> and \<^verbatim>\<open>Decr\<close> succeed
  and a second \<^verbatim>\<open>Decr\<close> fails with the underflow error; \<^verbatim>\<open>Incr\<close> and \<^verbatim>\<open>Decr\<close> on a stored
  string fail with the type mismatch error.
\<close>

theorem C4_counter_errors_witness:
  "FileCache_Set X0 c0 100 [] ''k'' (VUint 0) 0
     = (store_at [''cache'', ''0'', ''0'', h0] \<lparr>Val = VUint 0, Created = 100, Expire = 0\<rparr>, None)
   \<and> FileCache_Incr X0 c0 101
        (store_at [''cache'', ''0'', ''0'', h0] \<lparr>Val = VUint 0, Created = 100, Expire = 0\<rparr>) ''k''
     = (store_at [''cache'', ''0'', ''0'', h0] \<lparr>Val = VUint 1, Created = 101, Expire = 0\<rparr>, None)
   \<and> FileCache_Decr X0 c0 102
        (store_at [''cache'', ''0'', ''0'', h0] \<lparr>Val = VUint 1, Created = 101, Expire = 0\<rparr>) ''k''
     = (store_at [''cache'', ''0'', ''0'', h0] \<lparr>Val = VUint 0, Created = 102, Expire = 0\<rparr>, None)
   \<and> FileCache_read X0 c0
        (store_at [''cache'', ''0'', ''0'', h0] \<lparr>Val = VUint 0, Created = 102, Expire = 0\<rparr>) ''k''
     = Inr \<lparr>Val = VUint 0, Created = 102, Expire = 0\<rparr>
   \<and> FileCache_Decr X0 c0 103
        (store_at [''cache'', ''0'', ''0'', h0] \<lparr>Val = VUint 0, Created = 102, Expire = 0\<rparr>) ''k''
     = (store_at [''cache'', ''0'', ''0'', h0] \<lparr>Val = VUint 0, Created = 102, Expire = 0\<rparr>,
        Some Underflow)
   \<and> FileCache_read X0 c0
        (store_at [''cache'', ''0'', ''0'', h0] \<lparr>Val = VString ''v'', Created = 100, Expire = 0\<rparr>) ''k''
     = Inr \<lparr>Val = VString ''v'', Created = 100, Expire = 0\<rparr>
   \<and> FileCache_Incr X0 c0 101
        (store_at [''cache'', ''0'', ''0'', h0] \<lparr>Val = VString ''v'', Created = 100, Expire = 0\<rparr>) ''k''
     = (store_at [''cache'', ''0'', ''0'', h0] \<lparr>Val = VString ''v'', Created = 100, Expire = 0\<rparr>,
        Some TypeMismatch)
   \<and> FileCache_Decr X0 c0 101
        (store_at [''cache'', ''0'', ''0'', h0] \<lparr>Val = VString ''v'', Created = 100, Expire = 0\<rparr>) ''k''
     = (store_at [''cache'', ''0'', ''0'', h0] \<lparr>Val = VString ''v'', Created = 100, Expire = 0\<rparr>,
        Some TypeMismatch)"
proof -
  let ?p = "[''cache'', ''0'', ''0'', h0]"
  have r: "FileCache_read X0 c0 (store_at ?p item) ''k'' = Inr item" for item
    by (simp add: read_Inr file_path_k store_at_def)
  have s: "FileCache_Set X0 c0 now (store_at ?p item) ''k'' v e
      = (store_at ?p \<lparr>Val = stored X0 v, Created = now, Expire = e\<rparr>, None)" for now item v e
    by (simp add: Set_eq file_path_k write_file_def is_dir_def store_at_def)
  have i: "FileCache_Incr X0 c0 101 (store_at ?p \<lparr>Val = VUint 0, Created = 100, Expire = 0\<rparr>) ''k''
      = (store_at ?p \<lparr>Val = VUint 1, Created = 101, Expire = 0\<rparr>, None)"
    by (simp add: FileCache_Incr_def r s stored_def)
  have d: "FileCache_Decr X0 c0 102 (store_at ?p \<lparr>Val = VUint 1, Created = 101, Expire = 0\<rparr>) ''k''
      = (store_at ?p \<lparr>Val = VUint 0, Created = 102, Expire = 0\<rparr>, None)"
    by (simp add: FileCache_Decr_def r s stored_def)
  show ?thesis
    using C4_counter_errors[of X0 c0 "store_at ?p \<lparr>Val = VUint 0, Created = 102, Expire = 0\<rparr>"
        "''k''" "\<lparr>Val = VUint 0, Created = 102, Expire = 0\<rparr>" 103, OF r]
      C4_counter_errors[of X0 c0 "store_at ?p \<lparr>Val = VString ''v'', Created = 100, Expire = 0\<rparr>"
        "''k''" "\<lparr>Val = VString ''v'', Created = 100, Expire = 0\<rparr>" 101, OF r]
    by (simp add: Set_fresh_k stored_def i d r)
qed

text \<open>
  The claim as it is written fails for the unsigned types that the counters do not
  handle: a stored \<^verbatim>\<open>uint8(0)\<close> makes \<^verbatim>\<open>Decr\<close> fail with the type mismatch error, not
  with the underflow error.
\<close>

theorem C4_uint8_zero_counterexample:
  "FileCache_Set X0 c0 100 [] ''k'' (VUint8 0) 0
     = (store_at [''cache'', ''0'', ''0'', h0] \<lparr>Val = VUint8 0, Created = 100, Expire = 0\<rparr>, None)
   \<and> FileCache_Decr X0 c0 101
        (store_at [''cache'', ''0'', ''0'', h0] \<lparr>Val = VUint8 0, Created = 100, Expire = 0\<rparr>) ''k''
     = (store_at [''cache'', ''0'', ''0'', h0] \<lparr>Val = VUint8 0, Created = 100, Expire = 0\<rparr>,
        Some TypeMismatch)
   \<and> TypeMismatch \<noteq> Underflow"
proof -
  have "FileCache_read X0 c0
      (store_at [''cache'', ''0'', ''0'', h0] \<lparr>Val = VUint8 0, Created = 100, Expire = 0\<rparr>) ''k''
      = Inr \<lparr>Val = VUint8 0, Created = 100, Expire = 0\<rparr>"
    by (simp add: read_Inr file_path_k store_at_def)
  then show ?thesis
    by (simp add: Set_fresh_k stored_def FileCache_Decr_def TypeMismatch_def Underflow_def)
qed

text \<open>
  C5. For a key that holds an entry, a successful \<^verbatim>\<open>Incr\<close> or \<^verbatim>\<open>Decr\<close> leaves an entry
  with the counted value, the creation time reset to the current time and the TTL
  field it had before; where the directories above the file exist, nothing else in
  the store changes.
\<close>

theorem C5_counter_keeps_ttl:
  assumes "FileCache_read X c fs key = Inr item"
  shows "(FileCache_Incr X c now fs key = (fs1, None) \<longrightarrow>
            FileCache_read X c fs1 key =
              Inr \<lparr>Val = fst (Incr (Val item)), Created = now, Expire = Expire item\<rparr>
          \<and> (parents_ok fs (file_path X c key) \<longrightarrow>
               fs1 = AList.update (file_path X c key)
                 (File (Gob \<lparr>Val = fst (Incr (Val item)), Created = now, Expire = Expire item\<rparr>)) fs))
       \<and> (FileCache_Decr X c now fs key = (fs2, None) \<longrightarrow>
            FileCache_read X c fs2 key =
              Inr \<lparr>Val = fst (Decr (Val item)), Created = now, Expire = Expire item\<rparr>
          \<and> (parents_ok fs (file_path X c key) \<longrightarrow>
               fs2 = AList.update (file_path X c key)
                 (File (Gob \<lparr>Val = fst (Decr (Val item)), Created = now, Expire = Expire item\<rparr>)) fs))"
proof (intro conjI impI)
  assume a: "FileCache_Incr X c now fs key = (fs1, None)"
  then obtain v where v: "Incr (Val item) = (v, None)"
    and s: "FileCache_Set X c now fs key v (Expire item) = (fs1, None)"
    using assms by (auto simp: FileCache_Incr_def split: prod.splits option.splits)
  have e: "stored X v = v" using Incr_ok_number[OF v] by (simp add: stored_def)
  show "FileCache_read X c fs1 key =
      Inr \<lparr>Val = fst (Incr (Val item)), Created = now, Expire = Expire item\<rparr>"
    using Set_success_read[OF s] v e by simp
  assume "parents_ok fs (file_path X c key)"
  from Set_frame[OF this s] show "fs1 = AList.update (file_path X c key)
      (File (Gob \<lparr>Val = fst (Incr (Val item)), Created = now, Expire = Expire item\<rparr>)) fs"
    using v e by simp
next
  assume a: "FileCache_Decr X c now fs key = (fs2, None)"
  then obtain v where v: "Decr (Val item) = (v, None)"
    and s: "FileCache_Set X c now fs key v (Expire item) = (fs2, None)"
    using assms by (auto simp: FileCache_Decr_def split: prod.splits option.splits)
  have e: "stored X v = v" using Decr_ok_number[OF v] by (simp add: stored_def)
  show "FileCache_read X c fs2 key =
      Inr \<lparr>Val = fst (Decr (Val item)), Created = now, Expire = Expire item\<rparr>"
    using Set_success_read[OF s] v e by simp
  assume "parents_ok fs (file_path X c key)"
  from Set_frame[OF this s] show "fs2 = AList.update (file_path X c key)
      (File (Gob \<lparr>Val = fst (Decr (Val item)), Created = now, Expire = Expire item\<rparr>)) fs"
    using v e by simp
qed

theorem C5_counter_keeps_ttl_witness:
  "FileCache_read X0 c0
      (store_at [''cache'', ''0'', ''0'', h0] \<lparr>Val = VInt 5, Created = 100, Expire = 60\<rparr>) ''k''
     = Inr \<lparr>Val = VInt 5, Created = 100, Expire = 60\<rparr>
   \<and> FileCache_Incr X0 c0 130
      (store_at [''cache'', ''0'', ''0'', h0] \<lparr>Val = VInt 5, Created = 100, Expire = 60\<rparr>) ''k''
     = (store_at [''cache'', ''0'', ''0'', h0] \<lparr>Val = VInt 6, Created = 130, Expire = 60\<rparr>, None)
   \<and> FileCache_Decr X0 c0 130
      (store_at [''cache'', ''0'', ''0'', h0] \<lparr>Val = VInt 5, Created = 100, Expire = 60\<rparr>) ''k''
     = (store_at [''cache'', ''0'', ''0'', h0] \<lparr>Val = VInt 4, Created = 130, Expire = 60\<rparr>, None)
   \<and> FileCache_read X0 c0
      (store_at [''cache'', ''0'', ''0'', h0] \<lparr>Val = VInt 6, Created = 130, Expire = 60\<rparr>) ''k''
     = Inr \<lparr>Val = VInt 6, Created = 130, Expire = 60\<rparr>
   \<and> FileCache_read X0 c0
      (store_at [''cache'', ''0'', ''0'', h0] \<lparr>Val = VInt 4, Created = 130, Expire = 60\<rparr>) ''k''
     = Inr \<lparr>Val = VInt 4, Created = 130, Expire = 60\<rparr>
   \<and> parents_ok
      (store_at [''cache'', ''0'', ''0'', h0] \<lparr>Val = VInt 5, Created = 100, Expire = 60\<rparr>)
      (file_path X0 c0 ''k'')"
proof -
  let ?p = "[''cache'', ''0'', ''0'', h0]"
  let ?item = "\<lparr>Val = VInt 5, Created = 100, Expire = 60\<rparr>"
  have r: "FileCache_read X0 c0 (store_at ?p item) ''k'' = Inr item" for item
    by (simp add: read_Inr file_path_k store_at_def)
  have s: "FileCache_Set X0 c0 now (store_at ?p item) ''k'' v e
      = (store_at ?p \<lparr>Val = stored X0 v, Created = now, Expire = e\<rparr>, None)" for now item v e
    by (simp add: Set_eq file_path_k write_file_def is_dir_def store_at_def)
  have i: "FileCache_Incr X0 c0 130 (store_at ?p ?item) ''k''
      = (store_at ?p \<lparr>Val = VInt 6, Created = 130, Expire = 60\<rparr>, None)"
    by (simp add: FileCache_Incr_def r s stored_def)
  have d: "FileCache_Decr X0 c0 130 (store_at ?p ?item) ''k''
      = (store_at ?p \<lparr>Val = VInt 4, Created = 130, Expire = 60\<rparr>, None)"
    by (simp add: FileCache_Decr_def r s stored_def)
  have p: "parents_ok (store_at ?p ?item) (file_path X0 c0 ''k'')"
    by (simp add: parents_ok_def file_path_k store_at_def)
  note t = C5_counter_keeps_ttl[of X0 c0 "store_at ?p ?item" "''k''" ?item 130
        "store_at ?p \<lparr>Val = VInt 6, Created = 130, Expire = 60\<rparr>"
        "store_at ?p \<lparr>Val = VInt 4, Created = 130, Expire = 60\<rparr>", OF r]
  from t i have a: "FileCache_read X0 c0
      (store_at ?p \<lparr>Val = VInt 6, Created = 130, Expire = 60\<rparr>) ''k''
      = Inr \<lparr>Val = VInt 6, Created = 130, Expire = 60\<rparr>"
    by simp
  from t d have b: "FileCache_read X0 c0
      (store_at ?p \<lparr>Val = VInt 4, Created = 130, Expire = 60\<rparr>) ''k''
      = Inr \<lparr>Val = VInt 4, Created = 130, Expire = 60\<rparr>"
    by simp
  show ?thesis by (intro conjI r[of ?item] i d a b p)
qed

text \<open>
  C6. With the sweep enabled and the root present: if every file under the root
  decodes, one sweep ends without an error and removes exactly the files under the
  root whose entry is expired at the time of the sweep, leaving everything else as it
  was; if some file does not decode, the sweep stops with the decoder's error at such
  a file, and nothing at or after that file in the order of the walk is touched.
\<close>

theorem C6_sweep:
  assumes "1 \<le> interval c" and "IsExist fs (rootPath c)"
  shows "(all_decode fs (resolve (rootPath c)) \<longrightarrow>
            snd (FileCache_startGC c now fs) = None
          \<and> (\<forall>q. map_of (fst (FileCache_startGC c now fs)) q
                = (if path_under (resolve (rootPath c)) q \<and> expired_file now fs q then None
                   else map_of fs q))
          \<and> (\<forall>q item. map_of fs q = Some (File (Gob item)) \<longrightarrow> Expire item = 0 \<longrightarrow>
                map_of (fst (FileCache_startGC c now fs)) q = Some (File (Gob item))))
       \<and> (\<not> all_decode fs (resolve (rootPath c)) \<longrightarrow>
            snd (FileCache_startGC c now fs) = Some GobError
          \<and> (\<exists>p. path_under (resolve (rootPath c)) p \<and> junk_file fs p
                \<and> (\<forall>q. p \<le> q \<longrightarrow> map_of (fst (FileCache_startGC c now fs)) q = map_of fs q)))"
proof (intro conjI impI)
  let ?R = "resolve (rootPath c)"
  let ?ps = "walk_paths fs ?R"
  have g: "FileCache_startGC c now fs = sweep now fs ?ps"
    using assms by (simp add: FileCache_startGC_def)
  {
    assume "all_decode fs ?R"
    then have nj: "\<forall>p \<in> set ?ps. \<not> junk_file fs p" by (simp add: all_decode_def list_all_iff)
    from sweep_map[OF walk_paths_distinct(1) walk_paths_present nj] obtain fs' where
      s: "sweep now fs ?ps = (fs', None)"
      and m: "\<forall>q. map_of fs' q = (if q \<in> set ?ps \<and> expired_file now fs q then None else map_of fs q)"
      by blast
    show "snd (FileCache_startGC c now fs) = None" using g s by simp
    have "(q \<in> set ?ps \<and> expired_file now fs q) \<longleftrightarrow> (path_under ?R q \<and> expired_file now fs q)" for q
      using expired_file_present[of now fs q] by (auto simp: walk_paths_set)
    then show *: "\<forall>q. map_of (fst (FileCache_startGC c now fs)) q
                = (if path_under ?R q \<and> expired_file now fs q then None else map_of fs q)"
      using g s m by simp
    show "\<forall>q item. map_of fs q = Some (File (Gob item)) \<longrightarrow> Expire item = 0 \<longrightarrow>
                map_of (fst (FileCache_startGC c now fs)) q = Some (File (Gob item))"
      using * by (simp add: expired_file_def hasExpired_def)
  }
  {
    assume "\<not> all_decode fs ?R"
    then have ex: "\<exists>p \<in> set ?ps. junk_file fs p" by (simp add: all_decode_def list_all_iff)
    from sweep_abort[OF walk_paths_distinct walk_paths_present ex] obtain fs' p where
      s: "sweep now fs ?ps = (fs', Some GobError)" and p: "p \<in> set ?ps" "junk_file fs p"
      and m: "\<forall>q. p \<le> q \<longrightarrow> map_of fs' q = map_of fs q"
      by blast
    show "snd (FileCache_startGC c now fs) = Some GobError" using g s by simp
    show "\<exists>p. path_under ?R p \<and> junk_file fs p
                \<and> (\<forall>q. p \<le> q \<longrightarrow> map_of (fst (FileCache_startGC c now fs)) q = map_of fs q)"
      using g s p m by (auto simp: walk_paths_set)
  }
qed

theorem C6_sweep_witness:
  "1 \<le> interval c0
   \<and> IsExist gc_store (rootPath c0)
   \<and> all_decode gc_store (resolve (rootPath c0))
   \<and> snd (FileCache_startGC c0 200 gc_store) = None
   \<and> map_of (fst (FileCache_startGC c0 200 gc_store)) [''cache'', ''a'', ''0'', ''0'', h0] = None
   \<and> map_of (fst (FileCache_startGC c0 200 gc_store)) [''cache'', ''b'', ''0'', ''0'', h0]
       = Some (File (Gob \<lparr>Val = VString ''y'', Created = 100, Expire = 0\<rparr>))
   \<and> IsExist gc_junk_store (rootPath c0)
   \<and> \<not> all_decode gc_junk_store (resolve (rootPath c0))
   \<and> snd (FileCache_startGC c0 200 gc_junk_store) = Some GobError
   \<and> FileCache_startGC c0 200 gc_junk_store =
       ([([''cache''], Dir),
         ([''cache'', ''z''], File (Gob \<lparr>Val = VString ''z'', Created = 100, Expire = 1\<rparr>)),
         ([''cache'', ''j''], File (Junk ''???''))],
        Some GobError)"
proof -
  have R: "resolve (rootPath c0) = [''cache'']" by (simp add: c0_def resolve_def)
  have i: "1 \<le> interval c0" by (simp add: c0_def)
  have e: "IsExist gc_store (rootPath c0)" "IsExist gc_junk_store (rootPath c0)"
    by (simp_all add: IsExist_def R gc_store_def gc_junk_store_def)
  have w: "walk_paths gc_store [''cache''] =
      [[''cache''], [''cache'', ''a''], [''cache'', ''a'', ''0''], [''cache'', ''a'', ''0'', ''0''],
       [''cache'', ''a'', ''0'', ''0'', h0],
       [''cache'', ''b''], [''cache'', ''b'', ''0''], [''cache'', ''b'', ''0'', ''0''],
       [''cache'', ''b'', ''0'', ''0'', h0]]"
    by code_simp
  have wj: "walk_paths gc_junk_store [''cache''] =
      [[''cache''], [''cache'', ''a''], [''cache'', ''j''], [''cache'', ''z'']]"
    by code_simp
  have a: "all_decode gc_store (resolve (rootPath c0))"
    unfolding R all_decode_def w by (simp add: junk_file_def gc_store_def)
  have n: "\<not> all_decode gc_junk_store (resolve (rootPath c0))"
    unfolding R all_decode_def wj by (simp add: junk_file_def gc_junk_store_def)
  note t = C6_sweep[OF i e(1), of 200]
  note tj = C6_sweep[OF i e(2), of 200]
  from t a have 1: "snd (FileCache_startGC c0 200 gc_store) = None" by blast
  from t a have m: "map_of (fst (FileCache_startGC c0 200 gc_store)) q
                = (if path_under (resolve (rootPath c0)) q \<and> expired_file 200 gc_store q then None
                   else map_of gc_store q)" for q by blast
  have 2: "map_of (fst (FileCache_startGC c0 200 gc_store)) [''cache'', ''a'', ''0'', ''0'', h0] = None"
    unfolding m R
    by (simp add: path_under_def expired_file_def gc_store_def hasExpired_def word_sless_alt word_sle_eq)
  have 3: "map_of (fst (FileCache_startGC c0 200 gc_store)) [''cache'', ''b'', ''0'', ''0'', h0]
       = Some (File (Gob \<lparr>Val = VString ''y'', Created = 100, Expire = 0\<rparr>))"
    unfolding m R
    by (simp add: path_under_def expired_file_def gc_store_def hasExpired_def word_sless_alt word_sle_eq)
  from tj n have 4: "snd (FileCache_startGC c0 200 gc_junk_store) = Some GobError" by blast
  have 5: "FileCache_startGC c0 200 gc_junk_store =
       ([([''cache''], Dir),
         ([''cache'', ''z''], File (Gob \<lparr>Val = VString ''z'', Created = 100, Expire = 1\<rparr>)),
         ([''cache'', ''j''], File (Junk ''???''))],
        Some GobError)"
    using i e(2) unfolding FileCache_startGC_def R wj
    by (simp add: gc_junk_store_def hasExpired_def remove_path_def AList.delete_eq word_sless_alt
        word_sle_eq)
  show ?thesis by (intro conjI i e a 1 2 3 n 4 5)
qed




text \<open>
  C8, as amended. After \<^verbatim>\<open>Set("users_42", value, 0)\<close> the entry is stored under the
  bucket directory \<^verbatim>\<open>users\<close> of the root. \<^verbatim>\<open>Clear("users")\<close> removes exactly what lies
  under that directory: every entry of a key prefixed \<^verbatim>\<open>users_\<close> is gone, and the
  entries of keys without a bucket and of keys whose bucket is another plain
  directory name are as they were.
\<close>

theorem C8_bucket_clear:
  assumes "FileCache_Set X c now fs ''users_42'' v 0 = (fs1, None)"
  shows "file_path X c ''users_42''
           = resolve (rootPath c) @ [''users'', [hash_of X ''users_42'' ! 0],
               [hash_of X ''users_42'' ! 1], hash_of X ''users_42'']
       \<and> FileCache_read X c fs1 ''users_42'' = Inr \<lparr>Val = stored X v, Created = now, Expire = 0\<rparr>
       \<and> snd (FileCache_Clear X c fs2 ''users'') = None
       \<and> FileCache_read X c (fst (FileCache_Clear X c fs2 ''users'')) (''users_'' @ rest) = Inl ENOENT
       \<and> (CHR ''_'' \<notin> set key \<longrightarrow>
            FileCache_read X c (fst (FileCache_Clear X c fs2 ''users'')) key
              = FileCache_read X c fs2 key)
       \<and> (CHR ''_'' \<in> set key \<longrightarrow> clean_seg (split_on CHR ''_'' key ! 0) \<longrightarrow>
            split_on CHR ''_'' key ! 0 \<noteq> ''users'' \<longrightarrow>
            FileCache_read X c (fst (FileCache_Clear X c fs2 ''users'')) key
              = FileCache_read X c fs2 key)
       \<and> (\<not> path_under (resolve (rootPath c) @ [''users'']) q \<longrightarrow>
            map_of (fst (FileCache_Clear X c fs2 ''users'')) q = map_of fs2 q)"
proof -
  let ?U = "resolve (rootPath c) @ [''users'']"
  let ?fs' = "fst (FileCache_Clear X c fs2 ''users'')"
  have m: "map_of ?fs' q' = (if path_under ?U q' then None else map_of fs2 q')" for q'
    by (simp add: Clear_users map_of_not_under)
  have 1: "file_path X c ''users_42''
           = resolve (rootPath c) @ [''users'', [hash_of X ''users_42'' ! 0],
               [hash_of X ''users_42'' ! 1], hash_of X ''users_42'']"
    using file_path_users[of X c "''42''"] by simp
  have 2: "FileCache_read X c fs1 ''users_42'' = Inr \<lparr>Val = stored X v, Created = now, Expire = 0\<rparr>"
    by (rule Set_success_read[OF assms])
  have 3: "snd (FileCache_Clear X c fs2 ''users'') = None" by (simp add: Clear_users)
  have "path_under ?U (file_path X c (''users_'' @ rest))"
    unfolding file_path_users by (simp add: path_under_def)
  then have "map_of ?fs' (file_path X c (''users_'' @ rest)) = None"
    by (simp only: m if_True)
  then have 4: "FileCache_read X c ?fs' (''users_'' @ rest) = Inl ENOENT"
    by (simp only: read_eq option.case)
  have 5: "FileCache_read X c ?fs' key = FileCache_read X c fs2 key" if "CHR ''_'' \<notin> set key"
  proof -
    have "[hash_of X key ! 0] \<noteq> ''users''" by simp
    then show ?thesis by (simp add: read_eq m file_path_plain[OF that] under_snoc)
  qed
  have 6: "FileCache_read X c ?fs' key = FileCache_read X c fs2 key"
    if "CHR ''_'' \<in> set key" "clean_seg (split_on CHR ''_'' key ! 0)"
      "split_on CHR ''_'' key ! 0 \<noteq> ''users''"
    using that(3) by (simp add: read_eq m file_path_bucket[OF that(1,2)] under_snoc)
  show ?thesis using 1 2 3 4 5 6 m by simp
qed

theorem C8_bucket_clear_witness:
  "FileCache_Set X0 c0 100 [] ''users_42'' (VMap [(''name'', VString ''Ann'')]) 0
     = (store_at [''cache'', ''users'', ''0'', ''0'', h0]
          \<lparr>Val = VJsonBytes (VMap [(''name'', VString ''Ann'')]), Created = 100, Expire = 0\<rparr>, None)
   \<and> file_path X0 c0 ''users_42'' = [''cache'', ''users'', ''0'', ''0'', h0]
   \<and> FileCache_read X0 c0 demo_store ''users_42''
     = Inr \<lparr>Val = VJsonBytes (VMap [(''name'', VString ''Ann'')]), Created = 100, Expire = 0\<rparr>
   \<and> FileCache_Clear X0 c0 demo_store ''users''
     = ([([''cache''], Dir),
         ([''cache'', ''orders''], Dir), ([''cache'', ''orders'', ''0''], Dir),
         ([''cache'', ''orders'', ''0'', ''0''], Dir),
         ([''cache'', ''orders'', ''0'', ''0'', h0],
          File (Gob \<lparr>Val = VString ''o'', Created = 101, Expire = 0\<rparr>)),
         ([''cache'', ''0''], Dir), ([''cache'', ''0'', ''0''], Dir),
         ([''cache'', ''0'', ''0'', h0], File (Gob \<lparr>Val = VString ''p'', Created = 102, Expire = 0\<rparr>))],
        None)
   \<and> FileCache_read X0 c0 (fst (FileCache_Clear X0 c0 demo_store ''users'')) (''users_'' @ ''42'')
     = Inl ENOENT
   \<and> FileCache_read X0 c0 (fst (FileCache_Clear X0 c0 demo_store ''users'')) ''orders_1''
     = Inr \<lparr>Val = VString ''o'', Created = 101, Expire = 0\<rparr>
   \<and> FileCache_read X0 c0 (fst (FileCache_Clear X0 c0 demo_store ''users'')) ''k''
     = Inr \<lparr>Val = VString ''p'', Created = 102, Expire = 0\<rparr>"
proof -
  let ?ann = "VMap [(''name'', VString ''Ann'')]"
  let ?fsA = "store_at [''cache'', ''users'', ''0'', ''0'', h0]
          \<lparr>Val = VJsonBytes ?ann, Created = 100, Expire = 0\<rparr>"
  have s: "FileCache_Set X0 c0 100 [] ''users_42'' ?ann 0 = (?fsA, None)"
    by (simp add: Set_eq file_path_demo write_file_def is_dir_def store_at_def stored_ann)
  have ru: "FileCache_read X0 c0 demo_store ''users_42''
      = Inr \<lparr>Val = VJsonBytes ?ann, Created = 100, Expire = 0\<rparr>"
    and ro: "FileCache_read X0 c0 demo_store ''orders_1''
      = Inr \<lparr>Val = VString ''o'', Created = 101, Expire = 0\<rparr>"
    and rk: "FileCache_read X0 c0 demo_store ''k'' = Inr \<lparr>Val = VString ''p'', Created = 102, Expire = 0\<rparr>"
    by (simp_all add: read_Inr file_path_demo file_path_k demo_store_eq)
  have cl: "FileCache_Clear X0 c0 demo_store ''users''
     = ([([''cache''], Dir),
         ([''cache'', ''orders''], Dir), ([''cache'', ''orders'', ''0''], Dir),
         ([''cache'', ''orders'', ''0'', ''0''], Dir),
         ([''cache'', ''orders'', ''0'', ''0'', h0],
          File (Gob \<lparr>Val = VString ''o'', Created = 101, Expire = 0\<rparr>)),
         ([''cache'', ''0''], Dir), ([''cache'', ''0'', ''0''], Dir),
         ([''cache'', ''0'', ''0'', h0], File (Gob \<lparr>Val = VString ''p'', Created = 102, Expire = 0\<rparr>))],
        None)"
    by (simp add: Clear_users demo_store_eq c0_def resolve_def path_under_def)
  note t1 = C8_bucket_clear[where ?fs2.0=demo_store and rest="''42''" and key="''orders_1''", OF s]
  note t2 = C8_bucket_clear[where ?fs2.0=demo_store and rest="''42''" and key="''k''", OF s]
  have a: "FileCache_read X0 c0 (fst (FileCache_Clear X0 c0 demo_store ''users'')) (''users_'' @ ''42'')
     = Inl ENOENT"
    using t1 by blast
  have o: "clean_seg (split_on CHR ''_'' ''orders_1'' ! 0)" by (simp add: clean_seg_def)
  have b: "FileCache_read X0 c0 (fst (FileCache_Clear X0 c0 demo_store ''users'')) ''orders_1''
     = Inr \<lparr>Val = VString ''o'', Created = 101, Expire = 0\<rparr>"
    using t1 o ro by simp
  have c: "FileCache_read X0 c0 (fst (FileCache_Clear X0 c0 demo_store ''users'')) ''k''
     = Inr \<lparr>Val = VString ''p'', Created = 102, Expire = 0\<rparr>"
    using t2 rk by simp
  show ?thesis by (intro conjI s file_path_demo(1) ru cl a b c)
qed

text \<open>
  The claim as it is written fails for another bucket whose directory lies inside
  \<^verbatim>\<open>users\<close>: the entry of the key \<^verbatim>\<open>users/eu_7\<close>, of the bucket \<^verbatim>\<open>users/eu\<close>, is removed by
  \<^verbatim>\<open>Clear("users")\<close>.
\<close>

theorem C8_nested_bucket_counterexample:
  "split_on CHR ''_'' ''users/eu_7'' ! 0 = ''users/eu''
   \<and> FileCache_Set X0 c0 100 [] ''users/eu_7'' (VString ''v'') 0
     = (store_at [''cache'', ''users'', ''eu'', ''0'', ''0'', h0]
          \<lparr>Val = VString ''v'', Created = 100, Expire = 0\<rparr>, None)
   \<and> FileCache_read X0 c0
        (store_at [''cache'', ''users'', ''eu'', ''0'', ''0'', h0]
          \<lparr>Val = VString ''v'', Created = 100, Expire = 0\<rparr>) ''users/eu_7''
     = Inr \<lparr>Val = VString ''v'', Created = 100, Expire = 0\<rparr>
   \<and> FileCache_read X0 c0
        (fst (FileCache_Clear X0 c0
          (store_at [''cache'', ''users'', ''eu'', ''0'', ''0'', h0]
            \<lparr>Val = VString ''v'', Created = 100, Expire = 0\<rparr>) ''users'')) ''users/eu_7''
     = Inl ENOENT"
proof -
  let ?item = "\<lparr>Val = VString ''v'', Created = 100, Expire = 0\<rparr>"
  let ?fs = "store_at [''cache'', ''users'', ''eu'', ''0'', ''0'', h0] ?item"
  have b: "split_on CHR ''_'' ''users/eu_7'' ! 0 = ''users/eu''" by simp
  have s: "FileCache_Set X0 c0 100 [] ''users/eu_7'' (VString ''v'') 0 = (?fs, None)"
    by (simp add: Set_eq file_path_demo write_file_def is_dir_def store_at_def stored_def)
  have r: "FileCache_read X0 c0 ?fs ''users/eu_7'' = Inr ?item"
    by (simp add: read_Inr file_path_demo store_at_def)
  have "resolve (rootPath c0) @ [''users''] = [''cache'', ''users'']"
    by (simp add: c0_def resolve_def)
  then have "map_of (fst (FileCache_Clear X0 c0 ?fs ''users'')) (file_path X0 c0 ''users/eu_7'') = None"
    by (simp add: Clear_users map_of_not_under file_path_demo) (simp add: path_under_def)
  then have g: "FileCache_read X0 c0 (fst (FileCache_Clear X0 c0 ?fs ''users'')) ''users/eu_7''
      = Inl ENOENT"
    by (simp only: read_eq option.case)
  show ?thesis by (intro conjI b s r g)
qed






end
